theory Spec2Isabelle
  imports Main "HOL-Library.Word"
begin

section \<open>JavaScript strings, byte buffers and dates\<close>

text \<open>
  A JavaScript string is a sequence of UTF-16 code units; \<open>length\<close>, \<open>slice\<close>, \<open>replace\<close>
  with a regular expression without the \<open>u\<close> flag, \<open>includes\<close> and \<open>startsWith\<close> all work
  on code units. A \<open>Buffer\<close> is a sequence of bytes. \<open>js\<close> turns an ASCII literal of the
  source into its code units.
\<close>

type_synonym code_unit = "16 word"
type_synonym jsstring = "code_unit list"
type_synonym byte = "8 word"

definition js :: "string \<Rightarrow> jsstring" where
  "js s = map (\<lambda>c. of_nat (of_char c)) s"

text \<open>The line break \<open>'\r\n'\<close> and the double quote, which an ASCII literal cannot hold here.\<close>

definition crlf :: jsstring where
  "crlf = [0x0D, 0x0A]"

definition dquote :: jsstring where
  "dquote = [0x22]"

text \<open>
  \<open>a || b\<close> on two strings: the empty string is falsy. Every string the program reads
  from the mailbox reader is used only through \<open>||\<close>, \<open>?:\<close>, \<open>!\<close> or \<open>?.\<close>, where
  \<open>undefined\<close> and \<open>null\<close> behave as the empty string does, so an absent string is
  modelled as \<open>[]\<close>.
\<close>

definition orElse :: "jsstring \<Rightarrow> jsstring \<Rightarrow> jsstring" where
  "orElse a b = (if a \<noteq> [] then a else b)"

text \<open>\<open>Array.prototype.join\<close>.\<close>

fun join :: "jsstring \<Rightarrow> jsstring list \<Rightarrow> jsstring" where
  "join sep [] = []"
| "join sep [x] = x"
| "join sep (x # y # ys) = x @ sep @ join sep (y # ys)"

text \<open>\<open>String.prototype.startsWith\<close> and \<open>String.prototype.includes\<close> (\<open>str_includes\<close>).\<close>

definition startsWith :: "jsstring \<Rightarrow> jsstring \<Rightarrow> bool" where
  "startsWith s p = (take (length p) s = p)"

fun str_includes :: "jsstring \<Rightarrow> jsstring \<Rightarrow> bool" where
  "str_includes [] p = (p = [])"
| "str_includes (c # cs) p = (startsWith (c # cs) p \<or> str_includes cs p)"

text \<open>
  A \<open>Date\<close> is used by the program only through \<open>toUTCString()\<close> and \<open>toISOString()\<close>
  (and as a truthy object), so it is modelled by what the two methods return. Dates hold a
  valid time value, as the ones the reader decodes from file timestamps and \<open>new Date()\<close>.
\<close>

record jsdate =
  toUTCString :: jsstring
  toISOString :: jsstring

section \<open>Data model\<close>

record Attachment =
  filename :: jsstring
  data :: "byte list"
  contentType :: "jsstring option"

record MessageData =
  subject :: jsstring
  sender :: jsstring
  recipients :: "jsstring list"
  body :: jsstring
  sentDate :: "jsdate option"
  receivedDate :: "jsdate option"
  headers :: jsstring
  attachments :: "Attachment list"

record ContactData =
  fullName :: jsstring
  email :: jsstring
  businessPhone :: "jsstring option"
  mobilePhone :: "jsstring option"
  homePhone :: "jsstring option"
  address :: "jsstring option"
  company :: "jsstring option"
  jobTitle :: "jsstring option"

text \<open>
  \<open>AppointmentData\<close> has the fields \<open>subject\<close>, \<open>location\<close>, \<open>startTime\<close>, \<open>endTime\<close>
  and \<open>body\<close>; the prefix keeps them apart from the fields of \<open>MessageData\<close>.
\<close>

record AppointmentData =
  appt_subject :: jsstring
  appt_location :: jsstring
  startTime :: "jsdate option"
  endTime :: "jsdate option"
  appt_body :: jsstring

datatype FolderData = FolderData
  (name: jsstring)
  (messages: "MessageData list")
  (contacts: "ContactData list")
  (appointments: "AppointmentData list")
  (subfolders: "FolderData list")

section \<open>Path sanitizer\<close>

text \<open>The character class \<open>[<>:"/\\|?*]\<close> of \<open>sanitizeFilename\<close>.\<close>

definition invalidChars :: jsstring where
  "invalidChars = js ''<>:'' @ dquote @ js ''/'' @ [0x5C] @ js ''|?*''"

definition underscore :: code_unit where
  "underscore = 0x5F"

definition sanitizeFilename :: "jsstring \<Rightarrow> jsstring" where
  "sanitizeFilename fname =
     (let sanitized = map (\<lambda>c. if c \<in> set invalidChars then underscore else c) fname
      in take 180 sanitized)"

text \<open>
  \<open>formatDate\<close>: the empty string for an absent date, else the ISO string with every
  \<open>:\<close> and \<open>.\<close> replaced by \<open>-\<close>.
\<close>

definition formatDate :: "jsdate option \<Rightarrow> jsstring" where
  "formatDate date =
     (case date of
        None \<Rightarrow> []
      | Some d \<Rightarrow> map (\<lambda>c. if c \<in> set (js '':.'') then 0x2D else c) (toISOString d))"

section \<open>Format serializers\<close>

text \<open>
  \<open>Buffer.toString('base64')\<close>: three bytes become four characters of the alphabet, a
  remainder of one or two bytes is padded with \<open>=\<close>.
\<close>

definition base64Alphabet :: jsstring where
  "base64Alphabet = js ''ABCDEFGHIJKLMNOPQRSTUVWXYZabcdefghijklmnopqrstuvwxyz0123456789+/''"

definition base64Char :: "nat \<Rightarrow> code_unit" where
  "base64Char n = base64Alphabet ! (n mod 64)"

fun base64 :: "byte list \<Rightarrow> jsstring" where
  "base64 (a # b # c # rest) =
     [base64Char (unat a div 4),
      base64Char ((unat a mod 4) * 16 + unat b div 16),
      base64Char ((unat b mod 16) * 4 + unat c div 64),
      base64Char (unat c mod 64)] @ base64 rest"
| "base64 [a, b] =
     [base64Char (unat a div 4),
      base64Char ((unat a mod 4) * 16 + unat b div 16),
      base64Char ((unat b mod 16) * 4)] @ js ''=''"
| "base64 [a] =
     [base64Char (unat a div 4),
      base64Char ((unat a mod 4) * 16)] @ js ''==''"
| "base64 [] = []"

text \<open>
  \<open>s.match(/.{1,76}/g)\<close> on base64 text (which holds no line terminator): the pieces of
  76 characters, the last one shorter; no piece (\<open>null\<close>) for the empty string.
\<close>

function matchChunks :: "jsstring \<Rightarrow> jsstring list" where
  "matchChunks s = (if s = [] then [] else take 76 s # matchChunks (drop 76 s))"
  by pat_completeness auto
termination
  by (relation "measure length") auto

declare matchChunks.simps [simp del]

text \<open>\<open>x || d\<close> and the truthiness of an optional string field.\<close>

definition optOrElse :: "jsstring option \<Rightarrow> jsstring \<Rightarrow> jsstring" where
  "optOrElse x d = (case x of None \<Rightarrow> d | Some v \<Rightarrow> orElse v d)"

definition htmlBody :: "jsstring \<Rightarrow> bool" where
  "htmlBody b = (str_includes b (js ''<html'') \<or> str_includes b (js ''<body''))"

definition bodyContentType :: "jsstring \<Rightarrow> jsstring" where
  "bodyContentType b =
     (if htmlBody b then js ''Content-Type: text/html; charset=utf-8''
      else js ''Content-Type: text/plain; charset=utf-8'')"

text \<open>
  \<open>createEMLContent\<close> reads two things besides the message: \<open>Math.random()\<close>, whose
  rendering \<open>Math.random().toString(36).substr(2)\<close> is the argument \<open>token\<close>, and, only
  when the message has neither date, the clock (\<open>new Date()\<close>), the argument \<open>now\<close>.
  \<open>emlHeaderLines\<close> is the array \<open>[...].filter(Boolean)\<close> that is joined into the
  header block.
\<close>

definition emlBoundary :: "jsstring \<Rightarrow> jsstring" where
  "emlBoundary token = js ''boundary_'' @ token"

definition emlDate :: "jsdate \<Rightarrow> MessageData \<Rightarrow> jsdate" where
  "emlDate now message =
     (case sentDate message of
        Some d \<Rightarrow> d
      | None \<Rightarrow> (case receivedDate message of Some d \<Rightarrow> d | None \<Rightarrow> now))"

definition emlHeaderLines :: "jsstring \<Rightarrow> jsdate \<Rightarrow> MessageData \<Rightarrow> jsstring list" where
  "emlHeaderLines token now message =
     filter (\<lambda>l. l \<noteq> [])
       [js ''From: '' @ sender message,
        js ''To: '' @ join (js '', '') (recipients message),
        js ''Subject: '' @ subject message,
        js ''Date: '' @ toUTCString (emlDate now message),
        js ''MIME-Version: 1.0'',
        (if attachments message \<noteq> []
         then js ''Content-Type: multipart/mixed; boundary='' @ dquote @ emlBoundary token @ dquote
         else bodyContentType (body message)),
        js ''X-Mailer: pst-extractor'',
        orElse (headers message) []]"

definition attachmentPart :: "jsstring \<Rightarrow> Attachment \<Rightarrow> jsstring list" where
  "attachmentPart boundary attachment =
     (let fname = filter (\<lambda>c. c \<notin> set dquote) (filename attachment) in
      [js ''--'' @ boundary,
       js ''Content-Type: '' @ optOrElse (contentType attachment) (js ''application/octet-stream''),
       js ''Content-Disposition: attachment; filename='' @ dquote @ fname @ dquote,
       js ''Content-Transfer-Encoding: base64'',
       [],
       orElse (join crlf (matchChunks (base64 (data attachment)))) []])"

definition createEMLContent :: "jsstring \<Rightarrow> jsdate \<Rightarrow> MessageData \<Rightarrow> jsstring" where
  "createEMLContent token now message =
     (let boundary = emlBoundary token;
          headerBlock = join crlf (emlHeaderLines token now message)
      in if attachments message = [] then headerBlock @ crlf @ crlf @ body message
         else join crlf
                ([headerBlock, [], js ''--'' @ boundary, bodyContentType (body message), [],
                  body message]
                 @ concat (map (attachmentPart boundary) (attachments message))
                 @ [js ''--'' @ boundary @ js ''--'']))"

definition optLine :: "jsstring \<Rightarrow> jsstring option \<Rightarrow> jsstring" where
  "optLine prefix x =
     (case x of None \<Rightarrow> [] | Some v \<Rightarrow> if v \<noteq> [] then prefix @ v else [])"

definition createVCardContent :: "ContactData \<Rightarrow> jsstring" where
  "createVCardContent contact =
     join crlf (filter (\<lambda>l. l \<noteq> [])
       [js ''BEGIN:VCARD'',
        js ''VERSION:3.0'',
        js ''FN:'' @ fullName contact,
        (if email contact \<noteq> [] then js ''EMAIL:'' @ email contact else []),
        optLine (js ''TEL;TYPE=WORK:'') (businessPhone contact),
        optLine (js ''TEL;TYPE=CELL:'') (mobilePhone contact),
        optLine (js ''TEL;TYPE=HOME:'') (homePhone contact),
        optLine (js ''ADR:;;'') (address contact),
        optLine (js ''ORG:'') (company contact),
        optLine (js ''TITLE:'') (jobTitle contact),
        js ''END:VCARD''])"

definition createICalContent :: "AppointmentData \<Rightarrow> jsstring" where
  "createICalContent appointment =
     join crlf (filter (\<lambda>l. l \<noteq> [])
       [js ''BEGIN:VCALENDAR'',
        js ''VERSION:2.0'',
        js ''BEGIN:VEVENT'',
        js ''SUMMARY:'' @ appt_subject appointment,
        js ''LOCATION:'' @ orElse (appt_location appointment) [],
        (case startTime appointment of
           Some d \<Rightarrow> js ''DTSTART:'' @ formatDate (Some d) | None \<Rightarrow> []),
        (case endTime appointment of
           Some d \<Rightarrow> js ''DTEND:'' @ formatDate (Some d) | None \<Rightarrow> []),
        js ''DESCRIPTION:'' @ orElse (appt_body appointment) [],
        js ''END:VEVENT'',
        js ''END:VCALENDAR''])"


section \<open>The mailbox reader\<close>

text \<open>
  The reader (\<open>pst-extractor\<close>) is an external library. A property read or a method
  call on one of its folders, items, attachments or streams may raise: such a read is a
  value of \<open>error + 'a\<close>. \<open>extractFolder\<close> wraps the reads of items, attachments and
  streams in \<open>try\<close>/\<open>catch\<close>; the properties of the folder itself it reads outside every
  \<open>try\<close>. A property is read more than once by the program and gives the same result
  each time. A mailbox is finite: the cursor of a folder and the stream of an attachment
  come to an end.
\<close>

datatype error = ReaderError | StreamError | FsError

type_synonym 'a getter = "error + 'a"

definition andThen :: "error + 'a \<Rightarrow> ('a \<Rightarrow> error + 'b) \<Rightarrow> error + 'b" where
  "andThen r f = (case r of Inl e \<Rightarrow> Inl e | Inr v \<Rightarrow> f v)"

subsection \<open>Attachment streams\<close>

text \<open>
  A stream is the script of what its next reads deliver: a run of bytes, or a fault (the
  read raises). \<open>read(buffer)\<close> copies at most \<open>buffer.length\<close> bytes of the next run to the
  start of the buffer and returns their number, leaving the rest of the run in the stream;
  at the end of the stream it returns \<open>-1\<close>. \<open>read()\<close> returns the next byte, or \<open>-1\<close> at
  the end of the stream.
\<close>

datatype read_event = Chunk "byte list" | Fault

type_synonym stream = "read_event list"

fun readBlock :: "stream \<Rightarrow> byte list \<Rightarrow> (error + (int \<times> byte list)) \<times> stream" where
  "readBlock [] buffer = (Inr (- 1, buffer), [])"
| "readBlock (Fault # s) buffer = (Inl StreamError, s)"
| "readBlock (Chunk c # s) buffer =
     (let n = min (length c) (length buffer)
      in (Inr (int n, take n c @ drop n buffer),
          if n < length c then Chunk (drop n c) # s else s))"

fun readByte :: "stream \<Rightarrow> (error + int) \<times> stream" where
  "readByte [] = (Inr (- 1), [])"
| "readByte (Fault # s) = (Inl StreamError, s)"
| "readByte (Chunk [] # s) = readByte s"
| "readByte (Chunk (b # bs) # s) = (Inr (uint b), Chunk bs # s)"

fun eventSize :: "read_event \<Rightarrow> nat" where
  "eventSize (Chunk c) = Suc (length c)"
| "eventSize Fault = 1"

definition streamSize :: "stream \<Rightarrow> nat" where
  "streamSize s = sum_list (map eventSize s)"

lemma readBlock_shrinks:
  assumes "readBlock s buffer = (Inr (n, buffer'), s')" and "0 < n"
  shows "streamSize s' < streamSize s"
proof (cases s)
  case Nil
  with assms show ?thesis by simp
next
  case (Cons ev rest)
  show ?thesis
  proof (cases ev)
    case Fault
    with Cons assms show ?thesis by simp
  next
    case (Chunk c)
    define k where "k = min (length c) (length buffer)"
    from assms Cons Chunk have n: "n = int k"
      and s': "s' = (if k < length c then Chunk (drop k c) # rest else rest)"
      by (auto simp: Let_def k_def)
    from n assms(2) have "0 < k" by simp
    moreover have "k \<le> length c" by (simp add: k_def)
    ultimately show ?thesis
      unfolding s' Cons Chunk streamSize_def by (cases "k < length c") simp_all
  qed
qed

lemma readByte_shrinks:
  "readByte s = (Inr b, s') \<Longrightarrow> b \<noteq> - 1 \<Longrightarrow> streamSize s' < streamSize s"
  by (induction s arbitrary: b s' rule: readByte.induct)
     (auto simp: streamSize_def)

record PSTAttachment =
  attFilename :: "jsstring getter"
  longFilename :: "jsstring getter"
  mimeTag :: "jsstring getter"
  attSize :: "int getter"
  fileInputStream :: "stream option getter"

subsection \<open>AttachmentDrain\<close>

definition bufferSize :: nat where
  "bufferSize = 8176"

text \<open>
  The \<open>do ... while (bytesRead === bufferSize)\<close> loop. \<open>Buffer.from(buffer.slice(0,
  bytesRead))\<close> copies the bytes read, so a chunk does not change when the buffer is
  written again.
\<close>

function primaryLoop ::
  "stream \<Rightarrow> byte list \<Rightarrow> byte list list \<Rightarrow> (error + byte list list) \<times> stream" where
  "primaryLoop s buffer chunks =
     (case readBlock s buffer of
        (Inl e, s') \<Rightarrow> (Inl e, s')
      | (Inr (bytesRead, buffer'), s') \<Rightarrow>
          (let chunks' = (if bytesRead > 0 then chunks @ [take (nat bytesRead) buffer']
                          else chunks)
           in if bytesRead = int bufferSize then primaryLoop s' buffer' chunks'
              else (Inr chunks', s')))"
  by pat_completeness auto
termination
proof (relation "measure (\<lambda>(s, buffer, chunks). streamSize s)")
  show "wf (measure (\<lambda>(s, buffer, chunks). streamSize s))"
    by simp
next
  fix s :: stream and buffer chunks x s' x2 bytesRead buffer' chunks'
  assume "(x, s') = readBlock s buffer" "x = Inr x2" "(bytesRead, buffer') = x2"
    and "bytesRead = int bufferSize"
  then have "readBlock s buffer = (Inr (bytesRead, buffer'), s')" "0 < bytesRead"
    by (simp_all add: bufferSize_def)
  then have "streamSize s' < streamSize s"
    by (rule readBlock_shrinks)
  then show "((s', buffer', chunks'), (s, buffer, chunks))
      \<in> measure (\<lambda>(s, buffer, chunks). streamSize s)"
    by simp
qed

declare primaryLoop.simps [simp del]

text \<open>The \<open>while ((byte = attachmentStream.read()) !== -1)\<close> loop of the fallback.\<close>

function fallbackLoop :: "stream \<Rightarrow> int list \<Rightarrow> (error + int list) \<times> stream" where
  "fallbackLoop s rawData =
     (case readByte s of
        (Inl e, s') \<Rightarrow> (Inl e, s')
      | (Inr b, s') \<Rightarrow>
          if b \<noteq> - 1 then fallbackLoop s' (rawData @ [b]) else (Inr rawData, s'))"
  by pat_completeness auto
termination
proof (relation "measure (\<lambda>(s, rawData). streamSize s)")
  show "wf (measure (\<lambda>(s, rawData). streamSize s))"
    by simp
next
  fix s :: stream and rawData x s' b
  assume "(x, s') = readByte s" "x = Inr b" "b \<noteq> - 1"
  then have "readByte s = (Inr b, s')" "b \<noteq> - 1"
    by simp_all
  then have "streamSize s' < streamSize s"
    by (rule readByte_shrinks)
  then show "((s', rawData @ [b]), (s, rawData)) \<in> measure (\<lambda>(s, rawData). streamSize s)"
    by simp
qed

declare fallbackLoop.simps [simp del]

text \<open>
  The record pushed for an attachment whose bytes were read: the object literal with
  \<open>sanitizeFilename(attachment.longFilename || attachment.filename)\<close> and
  \<open>attachment.mimeTag || 'application/octet-stream'\<close>.
\<close>

definition makeAttachment :: "PSTAttachment \<Rightarrow> byte list \<Rightarrow> error + Attachment" where
  "makeAttachment attachment bytes =
     andThen (longFilename attachment) (\<lambda>lf.
     andThen (if lf \<noteq> [] then Inr lf else attFilename attachment) (\<lambda>fname.
     andThen (mimeTag attachment) (\<lambda>mt.
       Inr \<lparr>filename = sanitizeFilename fname, data = bytes,
            contentType = Some (orElse mt (js ''application/octet-stream''))\<rparr>)))"

text \<open>
  The body of the inner \<open>try\<close>: the chunked drain, then the push when a chunk was read.
  The result is the list of records pushed (none or one) or the exception, with the
  stream as the reads left it.
\<close>

definition primaryStrategy ::
  "PSTAttachment \<Rightarrow> stream \<Rightarrow> (error + Attachment list) \<times> stream" where
  "primaryStrategy attachment s =
     (case primaryLoop s (replicate bufferSize 0) [] of
        (Inl e, s') \<Rightarrow> (Inl e, s')
      | (Inr chunks, s') \<Rightarrow>
          if chunks \<noteq> []
          then (andThen (makeAttachment attachment (concat chunks)) (\<lambda>a. Inr [a]), s')
          else (Inr [], s'))"

text \<open>
  The body of the \<open>try\<close> inside \<open>catch (streamError)\<close>: the byte-wise loop, entered when
  \<open>attachment.size && attachment.size < 1024 * 1024\<close> (a size of \<open>0\<close> is falsy).
\<close>

definition fallbackStrategy :: "PSTAttachment \<Rightarrow> stream \<Rightarrow> error + Attachment list" where
  "fallbackStrategy attachment s =
     andThen (attSize attachment) (\<lambda>sz.
       if sz \<noteq> 0 \<and> sz < 1024 * 1024
       then (case fallbackLoop s [] of
               (Inl e, s') \<Rightarrow> Inl e
             | (Inr rawData, s') \<Rightarrow>
                 if rawData \<noteq> []
                 then andThen (makeAttachment attachment (map word_of_int rawData))
                        (\<lambda>a. Inr [a])
                 else Inr [])
       else Inr [])"

text \<open>
  Both strategies with their handlers: \<open>catch (streamError)\<close> starts the fallback on the
  same stream, \<open>catch (fallbackError)\<close> drops the attachment.
\<close>

definition drainStream :: "PSTAttachment \<Rightarrow> stream \<Rightarrow> Attachment list" where
  "drainStream attachment s =
     (case primaryStrategy attachment s of
        (Inr pushed, s') \<Rightarrow> pushed
      | (Inl streamError, s') \<Rightarrow>
          (case fallbackStrategy attachment s' of
             Inl fallbackError \<Rightarrow> []
           | Inr pushed \<Rightarrow> pushed))"

subsection \<open>Items, cursors and folders\<close>

text \<open>
  An item as \<open>extractFolder\<close> reads it. \<open>itemDisplayName\<close>, \<open>itemSubject\<close> and \<open>itemBody\<close>
  are the properties \<open>displayName\<close>, \<open>subject\<close> and \<open>body\<close> of the item;
  \<open>attachmentTable\<close> holds what \<open>getAttachment(i)\<close> returns for each index (an index
  outside the table raises).
\<close>

record PSTMessage =
  messageClass :: "jsstring getter"
  itemDisplayName :: "jsstring getter"
  itemSubject :: "jsstring getter"
  itemBody :: "jsstring getter"
  bodyHTML :: "jsstring getter"
  bodyRTF :: "jsstring getter"
  senderEmailAddress :: "jsstring getter"
  displayTo :: "jsstring getter"
  clientSubmitTime :: "jsdate option getter"
  messageDeliveryTime :: "jsdate option getter"
  transportMessageHeaders :: "jsstring getter"
  numberOfAttachments :: "int getter"
  attachmentTable :: "PSTAttachment option getter list"

definition getAttachment :: "PSTMessage \<Rightarrow> nat \<Rightarrow> error + PSTAttachment option" where
  "getAttachment message i =
     (if i < length (attachmentTable message) then attachmentTable message ! i
      else Inl ReaderError)"

text \<open>
  The cursor of a folder is the script of what the next calls of \<open>getNextChild()\<close> give:
  an item, or an exception; at the end of the script it returns \<open>null\<close>.
\<close>

datatype cursor_event = NextItem PSTMessage | NextFails

type_synonym cursor = "cursor_event list"

fun getNextChild :: "cursor \<Rightarrow> (error + PSTMessage option) \<times> cursor" where
  "getNextChild [] = (Inr None, [])"
| "getNextChild (NextItem item # cur) = (Inr (Some item), cur)"
| "getNextChild (NextFails # cur) = (Inl ReaderError, cur)"

text \<open>
  A folder handle. \<open>displayName\<close>, \<open>contentCount\<close> and \<open>hasSubfolders\<close> are properties
  of the reader and may raise as those of an item do; \<open>children\<close> is the cursor of the
  folder; \<open>getSubFolders()\<close> raises when \<open>subFoldersFail\<close> is set and returns
  \<open>subFolderList\<close> otherwise. Each folder has a cursor of its own.
\<close>

datatype PSTFolder = PSTFolder
  (displayName: "jsstring getter")
  (contentCount: "int getter")
  (hasSubfolders: "bool getter")
  (children: cursor)
  (subFoldersFail: bool)
  (subFolderList: "PSTFolder list")

section \<open>MailboxTreeWalker\<close>

text \<open>\<open>String.prototype.split\<close> on one character and \<open>String.prototype.trim\<close>.\<close>

fun split :: "code_unit \<Rightarrow> jsstring \<Rightarrow> jsstring list" where
  "split sep [] = [[]]"
| "split sep (c # cs) =
     (if c = sep then [] # split sep cs
      else (case split sep cs of [] \<Rightarrow> [[c]] | x # xs \<Rightarrow> (c # x) # xs))"

definition isWhiteSpace :: "code_unit \<Rightarrow> bool" where
  "isWhiteSpace c =
     (c \<in> set [0x09, 0x0A, 0x0B, 0x0C, 0x0D, 0x20, 0xA0, 0x1680, 0x2028, 0x2029, 0x202F,
                0x205F, 0x3000, 0xFEFF]
      \<or> (0x2000 \<le> c \<and> c \<le> 0x200A))"

definition trim :: "jsstring \<Rightarrow> jsstring" where
  "trim s = rev (dropWhile isWhiteSpace (rev (dropWhile isWhiteSpace s)))"

text \<open>
  One turn of the attachment loop, the body of \<open>try { ... } catch (attachError)\<close>: the
  records it pushes to \<open>attachments\<close>.
\<close>

definition attemptAttachment :: "PSTMessage \<Rightarrow> nat \<Rightarrow> error + Attachment list" where
  "attemptAttachment message i =
     andThen (getAttachment message i) (\<lambda>att.
       case att of
         None \<Rightarrow> Inr []
       | Some attachment \<Rightarrow>
           andThen (attFilename attachment) (\<lambda>fname.
             if fname = [] then Inr []
             else andThen (fileInputStream attachment) (\<lambda>st.
               case st of
                 None \<Rightarrow> Inr []
               | Some attachmentStream \<Rightarrow> Inr (drainStream attachment attachmentStream))))"

definition extractAttachment :: "PSTMessage \<Rightarrow> nat \<Rightarrow> Attachment list" where
  "extractAttachment message i =
     (case attemptAttachment message i of Inl attachError \<Rightarrow> [] | Inr pushed \<Rightarrow> pushed)"

text \<open>\<open>for (let i = 0; i < message.numberOfAttachments; i++)\<close>, with the count read as \<open>n\<close>.\<close>

function attachmentLoop :: "PSTMessage \<Rightarrow> int \<Rightarrow> nat \<Rightarrow> Attachment list \<Rightarrow> Attachment list" where
  "attachmentLoop message n i acc =
     (if int i < n then attachmentLoop message n (Suc i) (acc @ extractAttachment message i)
      else acc)"
  by pat_completeness auto
termination
  by (relation "measure (\<lambda>(message, n, i, acc). nat n - i)") auto

declare attachmentLoop.simps [simp del]

text \<open>
  The array \<open>attachments\<close> of a message item after
  \<open>if (message.numberOfAttachments > 0) { for ... }\<close>, with the count read as \<open>n\<close>.
\<close>

definition itemAttachments :: "PSTMessage \<Rightarrow> int \<Rightarrow> Attachment list" where
  "itemAttachments message n = (if n > 0 then attachmentLoop message n 0 [] else [])"

text \<open>
  The body and its type: \<open>message.bodyHTML || message.body || ''\<close>, replaced by the
  rich-text body when there is one. \<open>bodyRTF\<close> is a string, so its \<open>toString()\<close> is the
  string itself and \<open>catch (rtfError)\<close> is not entered. \<open>bodyType\<close> is a local variable
  that the record does not keep.
\<close>

definition chooseBody :: "PSTMessage \<Rightarrow> error + (jsstring \<times> jsstring)" where
  "chooseBody message =
     andThen (bodyHTML message) (\<lambda>html.
     andThen (if html \<noteq> [] then Inr html
              else andThen (itemBody message) (\<lambda>plain. Inr (orElse plain []))) (\<lambda>emailBody.
     andThen (bodyRTF message) (\<lambda>rtf.
       if rtf \<noteq> [] then Inr (rtf, js ''HTML'')
       else Inr (emailBody, if html \<noteq> [] then js ''HTML'' else js ''Text''))))"

text \<open>The body of the \<open>try\<close> that ends in \<open>folderData.messages.push\<close>: the record pushed.\<close>

definition buildMessage :: "PSTMessage \<Rightarrow> Attachment list \<Rightarrow> error + MessageData" where
  "buildMessage message atts =
     andThen (chooseBody message) (\<lambda>(emailBody, bodyType).
     andThen (itemSubject message) (\<lambda>subj.
     andThen (senderEmailAddress message) (\<lambda>from.
     andThen (displayTo message) (\<lambda>dto.
     andThen (clientSubmitTime message) (\<lambda>submitted.
     andThen (messageDeliveryTime message) (\<lambda>delivered.
     andThen (transportMessageHeaders message) (\<lambda>raw.
       Inr \<lparr>subject = sanitizeFilename (orElse subj (js ''(No Subject)'')),
            sender = orElse from [],
            recipients =
              (if dto \<noteq> [] then filter (\<lambda>r. r \<noteq> []) (map trim (split 0x3B dto)) else []),
            body = emailBody,
            sentDate = (case submitted of Some d \<Rightarrow> Some d | None \<Rightarrow> delivered),
            receivedDate = delivered,
            headers = orElse raw [],
            attachments = atts\<rparr>)))))))"

definition pushMessage :: "MessageData \<Rightarrow> FolderData \<Rightarrow> FolderData" where
  "pushMessage m fd =
     FolderData (name fd) (messages fd @ [m]) (contacts fd) (appointments fd) (subfolders fd)"

definition pushContact :: "ContactData \<Rightarrow> FolderData \<Rightarrow> FolderData" where
  "pushContact c fd =
     FolderData (name fd) (messages fd) (contacts fd @ [c]) (appointments fd) (subfolders fd)"

definition pushAppointment :: "AppointmentData \<Rightarrow> FolderData \<Rightarrow> FolderData" where
  "pushAppointment a fd =
     FolderData (name fd) (messages fd) (contacts fd) (appointments fd @ [a]) (subfolders fd)"

text \<open>
  The body of the item-level \<open>try\<close>. It ends in one of three ways besides an exception:
  the item had an unknown type and the cursor was advanced (\<open>continue\<close>), advancing the
  cursor after an unknown type failed (\<open>break\<close>), or the block was left at its end.
\<close>

datatype item_outcome =
  Continue "PSTMessage option" cursor
| Break
| Processed FolderData

definition processItem :: "PSTMessage \<Rightarrow> cursor \<Rightarrow> FolderData \<Rightarrow> error + item_outcome" where
  "processItem item cur folderData =
     andThen (messageClass item) (\<lambda>cls.
       if \<not> startsWith cls (js ''IPM.'') then
         (case getNextChild cur of
            (Inl nextError, cur') \<Rightarrow> Inr Break
          | (Inr next, cur') \<Rightarrow> Inr (Continue next cur'))
       else if cls = js ''IPM.Note'' \<or> startsWith cls (js ''IPM.Note.'') then
         andThen (numberOfAttachments item) (\<lambda>n.
           Inr (Processed
             (case buildMessage item (itemAttachments item n) of
                Inl messageError \<Rightarrow> folderData
              | Inr m \<Rightarrow> pushMessage m folderData)))
       else if cls = js ''IPM.Contact'' then
         andThen (itemDisplayName item) (\<lambda>dn.
           Inr (Processed (pushContact
             \<lparr>fullName = orElse dn [], email = [], businessPhone = Some [],
              mobilePhone = Some [], homePhone = Some [], address = Some [],
              company = Some [], jobTitle = Some []\<rparr> folderData)))
       else if cls = js ''IPM.Appointment'' then
         andThen (itemSubject item) (\<lambda>subj.
         andThen (itemBody item) (\<lambda>b.
           Inr (Processed (pushAppointment
             \<lparr>appt_subject = orElse subj [], appt_location = [], startTime = None,
              endTime = None, appt_body = orElse b []\<rparr> folderData))))
       else Inr (Processed folderData))"

text \<open>
  Advancing the cursor at the end of a turn of the \<open>while (item !== null)\<close> loop: the
  next item and the cursor behind it, or nothing when the cursor returned \<open>null\<close> or
  raised (\<open>break\<close>).
\<close>

definition advance :: "cursor \<Rightarrow> (PSTMessage \<times> cursor) option" where
  "advance cur =
     (case getNextChild cur of
        (Inl nextError, cur') \<Rightarrow> None
      | (Inr None, cur') \<Rightarrow> None
      | (Inr (Some next), cur') \<Rightarrow> Some (next, cur'))"

text \<open>
  One turn of the loop: an exception of the item is caught (\<open>catch (itemError)\<close>) and
  the cursor is advanced as after an item that was processed.
\<close>

definition loopTurn ::
  "PSTMessage \<Rightarrow> cursor \<Rightarrow> FolderData \<Rightarrow> FolderData \<times> (PSTMessage \<times> cursor) option" where
  "loopTurn item cur folderData =
     (case processItem item cur folderData of
        Inr Break \<Rightarrow> (folderData, None)
      | Inr (Continue None cur') \<Rightarrow> (folderData, None)
      | Inr (Continue (Some next) cur') \<Rightarrow> (folderData, Some (next, cur'))
      | Inr (Processed folderData') \<Rightarrow> (folderData', advance cur)
      | Inl itemError \<Rightarrow> (folderData, advance cur))"

lemma getNextChild_shrinks:
  "getNextChild cur = (Inr (Some next), cur') \<Longrightarrow> length cur' < length cur"
  by (induction cur rule: getNextChild.induct) auto

lemma advance_shrinks: "advance cur = Some (next, cur') \<Longrightarrow> length cur' < length cur"
  by (auto simp: advance_def dest: getNextChild_shrinks
      split: prod.splits sum.splits option.splits)

lemma processItem_Continue_shrinks:
  "processItem item cur fd = Inr (Continue (Some next) cur') \<Longrightarrow> length cur' < length cur"
  by (auto simp: processItem_def andThen_def Let_def dest: getNextChild_shrinks
      split: sum.splits if_splits prod.splits)

lemma loopTurn_shrinks:
  "loopTurn item cur fd = (fd', Some (next, cur')) \<Longrightarrow> length cur' < length cur"
  by (auto simp: loopTurn_def dest: advance_shrinks processItem_Continue_shrinks
      split: sum.splits item_outcome.splits option.splits)

function contentLoop :: "PSTMessage \<Rightarrow> cursor \<Rightarrow> FolderData \<Rightarrow> FolderData" where
  "contentLoop item cur folderData =
     (case loopTurn item cur folderData of
        (folderData', None) \<Rightarrow> folderData'
      | (folderData', Some (next, cur')) \<Rightarrow> contentLoop next cur' folderData')"
  by pat_completeness auto
termination
proof (relation "measure (\<lambda>(item, cur, folderData). length cur)")
  show "wf (measure (\<lambda>(item, cur, folderData). length cur))"
    by simp
next
  fix item cur folderData folderData' and x :: "(PSTMessage \<times> cursor) option"
    and y nxt cur'
  assume "(folderData', x) = loopTurn item cur folderData" "x = Some y" "(nxt, cur') = y"
  then have "loopTurn item cur folderData = (folderData', Some (nxt, cur'))"
    by simp
  then have "length cur' < length cur"
    by (rule loopTurn_shrinks)
  then show "((nxt, cur', folderData'), (item, cur, folderData))
      \<in> measure (\<lambda>(item, cur, folderData). length cur)"
    by simp
qed

declare contentLoop.simps [simp del]

text \<open>
  A folder whose messages, contacts, appointments and subfolders are all empty is not
  pushed to its parent.
\<close>

definition nonEmpty :: "FolderData \<Rightarrow> bool" where
  "nonEmpty fd =
     (length (messages fd) > 0 \<or> length (contacts fd) > 0
      \<or> length (appointments fd) > 0 \<or> length (subfolders fd) > 0)"

text \<open>
  The block \<open>if (folder.contentCount > 0) { try { ... } catch (error) { ... } }\<close>: an
  exception of the first \<open>getNextChild()\<close> is caught and leaves the aggregate as it is.
\<close>

definition enumerateContent :: "int \<Rightarrow> cursor \<Rightarrow> FolderData \<Rightarrow> FolderData" where
  "enumerateContent cnt cur folderData =
     (if cnt > 0 then
        (case getNextChild cur of
           (Inl error, cur') \<Rightarrow> folderData
         | (Inr None, cur') \<Rightarrow> folderData
         | (Inr (Some item), cur') \<Rightarrow> contentLoop item cur' folderData)
      else folderData)"

text \<open>
  \<open>extractFolder\<close>, and the loop over the child folders with the list
  \<open>folderData.subfolders\<close> built so far. \<open>folder.displayName\<close>, \<open>folder.contentCount\<close> and
  \<open>folder.hasSubfolders\<close> are read outside every \<open>try\<close>, in this order, the last one
  after the items were enumerated: when one of them raises, \<open>extractFolder\<close> raises. An
  exception of \<open>getSubFolders()\<close> is caught and leaves the list empty; an exception of
  the recursive call is caught (\<open>catch (subfolderError)\<close>) and the child is left out.
\<close>

fun extractFolder :: "PSTFolder \<Rightarrow> error + FolderData"
  and subfolderLoop :: "PSTFolder list \<Rightarrow> FolderData list \<Rightarrow> FolderData list" where
  "extractFolder (PSTFolder dn cnt hasSub cur subFail subs) =
     andThen dn (\<lambda>displayName'.
     andThen cnt (\<lambda>contentCount'.
       let folderData =
             enumerateContent contentCount' cur
               (FolderData (orElse displayName' (js ''Unnamed Folder'')) [] [] [] [])
       in andThen hasSub (\<lambda>hasSubfolders'.
            let subfolders' =
                  (if hasSubfolders' then
                     (if subFail then [] else subfolderLoop subs [])
                   else [])
            in Inr (FolderData (name folderData) (messages folderData) (contacts folderData)
                     (appointments folderData) subfolders'))))"
| "subfolderLoop [] acc = acc"
| "subfolderLoop (childFolder # rest) acc =
     subfolderLoop rest
       (case extractFolder childFolder of
          Inl subfolderError \<Rightarrow> acc
        | Inr subfolderData \<Rightarrow> if nonEmpty subfolderData then acc @ [subfolderData] else acc)"

text \<open>
  Two functions to state what the enumeration of a folder collects. \<open>itemResult\<close> is the
  aggregate after one item: the aggregate as it was when the item raised or had an unknown
  type. \<open>reachableItems\<close> are the items the cursor delivers before it raises or ends.
\<close>

definition itemResult :: "PSTMessage \<Rightarrow> FolderData \<Rightarrow> FolderData" where
  "itemResult item folderData =
     (case processItem item [] folderData of
        Inr (Processed folderData') \<Rightarrow> folderData'
      | Inr (Continue nxt cur) \<Rightarrow> folderData
      | Inr Break \<Rightarrow> folderData
      | Inl itemError \<Rightarrow> folderData)"

fun reachableItems :: "cursor \<Rightarrow> PSTMessage list" where
  "reachableItems [] = []"
| "reachableItems (NextItem item # cur) = item # reachableItems cur"
| "reachableItems (NextFails # cur) = []"

text \<open>
  An attachment record with a non-empty byte sequence and a non-empty content type.
\<close>

definition attachmentOK :: "Attachment \<Rightarrow> bool" where
  "attachmentOK x = (data x \<noteq> [] \<and> (\<exists>ct. contentType x = Some ct \<and> ct \<noteq> []))"

text \<open>The message records of an aggregate and of all the aggregates below it.\<close>

fun allMessages :: "FolderData \<Rightarrow> MessageData list" where
  "allMessages (FolderData nm msgs cts apps subs) = msgs @ concat (map allMessages subs)"

text \<open>The aggregates below an aggregate, at every depth.\<close>

fun allSubfolders :: "FolderData \<Rightarrow> FolderData list" where
  "allSubfolders (FolderData nm msgs cts apps subs) = subs @ concat (map allSubfolders subs)"

section \<open>Exporter\<close>

text \<open>
  The file system is the list of the operations that succeeded, in order. Which
  operations fail (\<open>faulty\<close>), what \<open>Math.random()\<close> renders at its n-th call (\<open>random\<close>)
  and what the clock reads then (\<open>clock\<close>) are given by the world the export runs in;
  \<open>draws\<close> counts the calls of \<open>createEMLContent\<close>.

  A path is absolute and normalized: it is the list of its segments below the root.
  \<open>path.join\<close> appends the segments it is given and normalizes the result: an empty
  segment and \<open>.\<close> are dropped, \<open>..\<close> removes the segment before it (at the root there is
  none to remove). The segments the exporter joins hold no separator: they are literals
  or results of \<open>sanitizeFilename\<close>.
\<close>

type_synonym path = "jsstring list"

definition joinSegment :: "path \<Rightarrow> jsstring \<Rightarrow> path" where
  "joinSegment p seg =
     (if seg = [] \<or> seg = js ''.'' then p
      else if seg = js ''..'' then butlast p
      else p @ [seg])"

definition pathJoin :: "path \<Rightarrow> jsstring list \<Rightarrow> path" where
  "pathJoin p segs = foldl joinSegment p segs"

datatype content = Text jsstring | Bytes "byte list"

datatype fsop = Mkdir path | WriteFile path content

record world =
  faulty :: "fsop \<Rightarrow> bool"
  random :: "nat \<Rightarrow> jsstring"
  clock :: "nat \<Rightarrow> jsdate"

record fs_state =
  ops :: "fsop list"
  draws :: nat

definition perform :: "world \<Rightarrow> fsop \<Rightarrow> fs_state \<Rightarrow> (error + unit) \<times> fs_state" where
  "perform w op st =
     (if faulty w op then (Inl FsError, st) else (Inr (), st\<lparr>ops := ops st @ [op]\<rparr>))"

definition mkdir :: "world \<Rightarrow> path \<Rightarrow> fs_state \<Rightarrow> (error + unit) \<times> fs_state" where
  "mkdir w p st = perform w (Mkdir p) st"

definition writeFile :: "world \<Rightarrow> path \<Rightarrow> content \<Rightarrow> fs_state \<Rightarrow> (error + unit) \<times> fs_state" where
  "writeFile w p c st = perform w (WriteFile p c) st"

text \<open>Sequencing of awaited operations: an exception skips what follows.\<close>

definition thenDo ::
  "(error + unit) \<times> fs_state \<Rightarrow> (fs_state \<Rightarrow> (error + unit) \<times> fs_state)
   \<Rightarrow> (error + unit) \<times> fs_state" where
  "thenDo r f = (case r of (Inl e, st) \<Rightarrow> (Inl e, st) | (Inr u, st) \<Rightarrow> f st)"

text \<open>The loop over the attachments of a message; each write has a \<open>try\<close> of its own.\<close>

fun exportAttachments :: "world \<Rightarrow> path \<Rightarrow> Attachment list \<Rightarrow> fs_state \<Rightarrow> fs_state" where
  "exportAttachments w attachmentsPath [] st = st"
| "exportAttachments w attachmentsPath (attachment # rest) st =
     exportAttachments w attachmentsPath rest
       (case writeFile w (pathJoin attachmentsPath [sanitizeFilename (filename attachment)])
               (Bytes (data attachment)) st of
          (Inl attachError, st') \<Rightarrow> st'
        | (Inr u, st') \<Rightarrow> st')"

text \<open>
  One turn of the loop over the messages: the whole body is in a \<open>try\<close> whose handler
  goes on with the next message.
\<close>

definition exportMessage :: "world \<Rightarrow> path \<Rightarrow> MessageData \<Rightarrow> fs_state \<Rightarrow> fs_state" where
  "exportMessage w emailsPath message st =
     (let fname = sanitizeFilename
            (formatDate (sentDate message) @ js ''_'' @ subject message @ js ''.eml'');
          emailPath = pathJoin emailsPath [fname];
          eml = createEMLContent (random w (draws st)) (clock w (draws st)) message;
          st0 = st\<lparr>draws := Suc (draws st)\<rparr>
      in case writeFile w emailPath (Text eml) st0 of
           (Inl messageError, st1) \<Rightarrow> st1
         | (Inr u, st1) \<Rightarrow>
             if attachments message \<noteq> [] then
               (let attachmentsPath =
                      pathJoin emailsPath [js ''Attachments'', sanitizeFilename (subject message)]
                in case mkdir w attachmentsPath st1 of
                     (Inl messageError, st2) \<Rightarrow> st2
                   | (Inr u, st2) \<Rightarrow>
                       exportAttachments w attachmentsPath (attachments message) st2)
             else st1)"

fun exportMessages :: "world \<Rightarrow> path \<Rightarrow> MessageData list \<Rightarrow> fs_state \<Rightarrow> fs_state" where
  "exportMessages w emailsPath [] st = st"
| "exportMessages w emailsPath (message # rest) st =
     exportMessages w emailsPath rest (exportMessage w emailsPath message st)"

text \<open>The loops over the contacts and the appointments have no \<open>try\<close> of their own.\<close>

fun exportContacts ::
  "world \<Rightarrow> path \<Rightarrow> ContactData list \<Rightarrow> fs_state \<Rightarrow> (error + unit) \<times> fs_state" where
  "exportContacts w contactsPath [] st = (Inr (), st)"
| "exportContacts w contactsPath (contact # rest) st =
     thenDo (writeFile w
              (pathJoin contactsPath [sanitizeFilename (fullName contact @ js ''.vcf'')])
              (Text (createVCardContent contact)) st)
       (exportContacts w contactsPath rest)"

fun exportAppointments ::
  "world \<Rightarrow> path \<Rightarrow> AppointmentData list \<Rightarrow> fs_state \<Rightarrow> (error + unit) \<times> fs_state" where
  "exportAppointments w calendarPath [] st = (Inr (), st)"
| "exportAppointments w calendarPath (appointment # rest) st =
     thenDo (writeFile w
              (pathJoin calendarPath [sanitizeFilename
                 (formatDate (startTime appointment) @ js ''_'' @ appt_subject appointment
                  @ js ''.ics'')])
              (Text (createICalContent appointment)) st)
       (exportAppointments w calendarPath rest)"

text \<open>
  \<open>exportToFiles\<close> and its loop over the subfolders. The handler of the outer \<open>try\<close>
  throws the exception again.
\<close>

fun exportToFiles ::
    "world \<Rightarrow> FolderData \<Rightarrow> path \<Rightarrow> fs_state \<Rightarrow> (error + unit) \<times> fs_state"
  and exportSubfolders ::
    "world \<Rightarrow> FolderData list \<Rightarrow> path \<Rightarrow> fs_state \<Rightarrow> (error + unit) \<times> fs_state" where
  "exportToFiles w (FolderData nm msgs cts apps subs) basePath st =
     (let folderPath = pathJoin basePath [sanitizeFilename nm] in
      thenDo (mkdir w folderPath st) (\<lambda>st1.
      thenDo (if length msgs > 0
              then thenDo (mkdir w (pathJoin folderPath [js ''Emails'']) st1)
                     (\<lambda>st. (Inr (),
                        exportMessages w (pathJoin folderPath [js ''Emails'']) msgs st))
              else (Inr (), st1)) (\<lambda>st2.
      thenDo (if length cts > 0
              then thenDo (mkdir w (pathJoin folderPath [js ''Contacts'']) st2)
                     (exportContacts w (pathJoin folderPath [js ''Contacts'']) cts)
              else (Inr (), st2)) (\<lambda>st3.
      thenDo (if length apps > 0
              then thenDo (mkdir w (pathJoin folderPath [js ''Calendar'']) st3)
                     (exportAppointments w (pathJoin folderPath [js ''Calendar'']) apps)
              else (Inr (), st3)) (\<lambda>st4.
      exportSubfolders w subs folderPath st4)))))"
| "exportSubfolders w [] folderPath st = (Inr (), st)"
| "exportSubfolders w (subfolder # rest) folderPath st =
     thenDo (exportToFiles w subfolder folderPath st) (exportSubfolders w rest folderPath)"


section \<open>Concrete inputs\<close>

text \<open>
  Two clock readings one second apart; a message whose every field is empty; a message
  with a subject, a body and a sent date, whose sender and recipients are empty; and the
  same message without a date.
\<close>

definition epoch :: jsdate where
  "epoch = \<lparr>toUTCString = js ''Thu, 01 Jan 1970 00:00:00 GMT'',
            toISOString = js ''1970-01-01T00:00:00.000Z''\<rparr>"


definition emptyMessage :: MessageData where
  "emptyMessage =
     \<lparr>subject = [], sender = [], recipients = [], body = [], sentDate = None,
      receivedDate = None, headers = [], attachments = []\<rparr>"

definition datedMessage :: MessageData where
  "datedMessage = emptyMessage\<lparr>subject := js ''Hello'', body := js ''Hi'', sentDate := Some epoch\<rparr>"


text \<open>An attachment of the reader whose MIME type is not given.\<close>

definition textAttachment :: PSTAttachment where
  "textAttachment =
     \<lparr>attFilename = Inr (js ''a.txt''), longFilename = Inr (js ''notes:a.txt''),
      mimeTag = Inr [], attSize = Inr 2, fileInputStream = Inr (Some [Chunk [1], Chunk [2]])\<rparr>"

text \<open>
  A message item with a rich-text, an HTML and a plain body and no attachment, the record
  \<open>extractFolder\<close> makes of it, the same item with a type tag whose read raises, and a
  folder that holds both, with an empty subfolder and a subfolder that holds a message.
\<close>

definition noteItem :: PSTMessage where
  "noteItem =
     \<lparr>messageClass = Inr (js ''IPM.Note''), itemDisplayName = Inr [],
      itemSubject = Inr (js ''Re: a/b''), itemBody = Inr (js ''plain''),
      bodyHTML = Inr (js ''<html>h''), bodyRTF = Inr (js ''{rtf}''),
      senderEmailAddress = Inr (js ''a@x''), displayTo = Inr (js ''b@x; c@x''),
      clientSubmitTime = Inr None, messageDeliveryTime = Inr (Some epoch),
      transportMessageHeaders = Inr [], numberOfAttachments = Inr 0,
      attachmentTable = []\<rparr>"

definition noteRecord :: MessageData where
  "noteRecord =
     \<lparr>subject = js ''Re_ a_b'', sender = js ''a@x'', recipients = [js ''b@x'', js ''c@x''],
      body = js ''{rtf}'', sentDate = Some epoch, receivedDate = Some epoch, headers = [],
      attachments = []\<rparr>"

definition brokenItem :: PSTMessage where
  "brokenItem = noteItem\<lparr>messageClass := Inl ReaderError\<rparr>"

definition emptyFolder :: FolderData where
  "emptyFolder = FolderData (js ''Inbox'') [] [] [] []"

definition inbox :: PSTFolder where
  "inbox =
     PSTFolder (Inr (js ''Inbox'')) (Inr 2) (Inr True) [NextItem brokenItem, NextItem noteItem] False
       [PSTFolder (Inr (js ''Empty'')) (Inr 0) (Inr False) [] False [],
        PSTFolder (Inr (js ''Sub'')) (Inr 1) (Inr False) [NextItem noteItem] False []]"

text \<open>
  A folder whose name cannot be read, and a folder that holds it: its cursor delivers an
  item that raises, the sample item, then raises, with an item behind that; its
  subfolders are the unreadable folder and the subfolder that holds a message.
\<close>

definition brokenFolder :: PSTFolder where
  "brokenFolder =
     PSTFolder (Inl ReaderError) (Inr 1) (Inr False) [NextItem noteItem] False []"

definition faultyInbox :: PSTFolder where
  "faultyInbox =
     PSTFolder (Inr (js ''Inbox'')) (Inr 4) (Inr True)
       [NextItem brokenItem, NextItem noteItem, NextFails, NextItem noteItem] False
       [brokenFolder,
        PSTFolder (Inr (js ''Sub'')) (Inr 1) (Inr False) [NextItem noteItem] False []]"

text \<open>
  The sample item without a subject and with a subject of 180 code units, the records
  \<open>extractFolder\<close> makes of them, and a folder that holds the second.
\<close>

definition untitledItem :: PSTMessage where
  "untitledItem = noteItem\<lparr>itemSubject := Inr []\<rparr>"

definition untitledRecord :: MessageData where
  "untitledRecord = noteRecord\<lparr>subject := js ''(No Subject)''\<rparr>"

definition longItem :: PSTMessage where
  "longItem = noteItem\<lparr>itemSubject := Inr (replicate 180 0x53)\<rparr>"

definition longRecord :: MessageData where
  "longRecord = noteRecord\<lparr>subject := replicate 180 0x53\<rparr>"

definition archive :: PSTFolder where
  "archive = PSTFolder (Inr (js ''Archive'')) (Inr 1) (Inr False) [NextItem longItem] False []"

text \<open>
  Two aggregates to export, one with two contacts and one with two messages, and two
  worlds: in the first the write of the first contact's file fails, in the second the
  write of the first message's file.
\<close>

definition jane :: ContactData where
  "jane = \<lparr>fullName = js ''Jane Doe'', email = js ''jane@x.com'', businessPhone = Some [],
           mobilePhone = Some [], homePhone = Some [], address = Some [], company = Some [],
           jobTitle = Some []\<rparr>"

definition john :: ContactData where
  "john = jane\<lparr>fullName := js ''John Roe'', email := []\<rparr>"

definition contactsFolder :: FolderData where
  "contactsFolder = FolderData (js ''Contacts'') [] [jane, john] [] []"

definition janeFails :: world where
  "janeFails =
     \<lparr>faulty = (\<lambda>op. case op of
                  WriteFile p c \<Rightarrow> p = [js ''out'', js ''Contacts'', js ''Contacts'', js ''Jane Doe.vcf'']
                | Mkdir p \<Rightarrow> False),
      random = (\<lambda>n. js ''k3''), clock = (\<lambda>n. epoch)\<rparr>"

definition mailFolder :: FolderData where
  "mailFolder = FolderData (js ''Inbox'') [noteRecord, datedMessage] [] [] []"

definition noteFails :: world where
  "noteFails =
     \<lparr>faulty = (\<lambda>op. case op of
                  WriteFile p c \<Rightarrow> p = [js ''out'', js ''Inbox'', js ''Emails'',
                                       js ''1970-01-01T00-00-00-000Z_Re_ a_b.eml'']
                | Mkdir p \<Rightarrow> False),
      random = (\<lambda>n. js ''k3''), clock = (\<lambda>n. epoch)\<rparr>"

definition fs0 :: fs_state where
  "fs0 = \<lparr>ops = [], draws = 0\<rparr>"

text \<open>A world without faults.\<close>

definition quietWorld :: world where
  "quietWorld = \<lparr>faulty = (\<lambda>op. False), random = (\<lambda>n. js ''k3''), clock = (\<lambda>n. epoch)\<rparr>"


text \<open>
  The sample attachment with a stream whose first read raises, the same with a declared
  size of \<open>0\<close>, the sample message item with these two attachments, and the record
  \<open>extractFolder\<close> makes of it: the first attachment is read byte by byte, the second
  is dropped.
\<close>

definition faultyAttachment :: PSTAttachment where
  "faultyAttachment =
     textAttachment\<lparr>fileInputStream := Inr (Some [Fault, Chunk [1], Chunk [2]])\<rparr>"

definition unsizedAttachment :: PSTAttachment where
  "unsizedAttachment = faultyAttachment\<lparr>attSize := Inr 0\<rparr>"

definition mailItem :: PSTMessage where
  "mailItem = noteItem\<lparr>numberOfAttachments := Inr 2,
                        attachmentTable := [Inr (Some faultyAttachment),
                                            Inr (Some unsizedAttachment)]\<rparr>"

definition mailRecord :: MessageData where
  "mailRecord =
     noteRecord\<lparr>attachments :=
       [\<lparr>filename = js ''notes_a.txt'', data = [1, 2],
         contentType = Some (js ''application/octet-stream'')\<rparr>]\<rparr>"

definition mailbox :: PSTFolder where
  "mailbox = PSTFolder (Inr (js ''Inbox'')) (Inr 1) (Inr False) [NextItem mailItem] False []"

text \<open>A folder that holds the item without a subject and the item with attachments.\<close>

definition drafts :: PSTFolder where
  "drafts =
     PSTFolder (Inr (js ''Drafts'')) (Inr 2) (Inr False)
       [NextItem untitledItem, NextItem mailItem] False []"

section \<open>Properties\<close>

subsection \<open>Path sanitizer\<close>

lemma underscore_valid: "underscore \<notin> set invalidChars"
  by (simp add: underscore_def invalidChars_def js_def dquote_def)

lemma sanitizeFilename_length: "length (sanitizeFilename s) \<le> 180"
  by (simp add: sanitizeFilename_def)

lemma sanitizeFilename_valid: "set (sanitizeFilename s) \<inter> set invalidChars = {}"
proof -
  have "c \<notin> set invalidChars" if "c \<in> set (sanitizeFilename s)" for c
  proof -
    from that have "c \<in> set (map (\<lambda>c. if c \<in> set invalidChars then underscore else c) s)"
      unfolding sanitizeFilename_def Let_def by (rule in_set_takeD)
    then obtain d where "c = (if d \<in> set invalidChars then underscore else d)"
      unfolding set_map by (elim imageE)
    then show ?thesis
      using underscore_valid by (cases "d \<in> set invalidChars") simp_all
  qed
  then show ?thesis by blast
qed

text \<open>
  C8. For every input string, \<open>sanitizeFilename\<close> returns a string that holds none of the
  characters \<open>< > : " / \ | ? *\<close> and is at most 180 code units long; it is the first 180
  code units of the input with each of those characters replaced by an underscore.
\<close>

theorem sanitizeFilename_safe:
  "set (sanitizeFilename s) \<inter> set invalidChars = {}
   \<and> length (sanitizeFilename s) \<le> 180
   \<and> sanitizeFilename s = map (\<lambda>c. if c \<in> set invalidChars then underscore else c) (take 180 s)"
  using sanitizeFilename_valid [of s] sanitizeFilename_length [of s]
  by (simp add: sanitizeFilename_def take_map)

subsection \<open>Message serializer: the header block\<close>

lemma js_Cons_nonempty [simp]: "js (c # cs) \<noteq> []" "[] \<noteq> js (c # cs)"
  by (simp_all add: js_def)

lemma bodyContentType_nonempty [simp]: "bodyContentType b \<noteq> []"
  by (simp add: bodyContentType_def)

text \<open>
  C4 as stated fails: for a message whose sender and recipients are empty the output
  holds the lines \<open>From: \<close> and \<open>To: \<close>, each with an empty value.
\<close>

theorem createEMLContent_empty_headers_kept:
  "js ''From: '' \<in> set (emlHeaderLines (js ''k3'') epoch datedMessage)
   \<and> js ''To: '' \<in> set (emlHeaderLines (js ''k3'') epoch datedMessage)
   \<and> createEMLContent (js ''k3'') epoch datedMessage =
       js ''From: '' @ crlf @ js ''To: '' @ crlf @ js ''Subject: Hello'' @ crlf
       @ js ''Date: Thu, 01 Jan 1970 00:00:00 GMT'' @ crlf
       @ js ''MIME-Version: 1.0'' @ crlf
       @ js ''Content-Type: text/plain; charset=utf-8'' @ crlf
       @ js ''X-Mailer: pst-extractor'' @ crlf @ crlf @ js ''Hi''"
  by (simp add: createEMLContent_def emlHeaderLines_def datedMessage_def emptyMessage_def
      epoch_def emlDate_def bodyContentType_def htmlBody_def orElse_def js_def crlf_def
      startsWith_def)

text \<open>
  C4, amended. The output of \<open>createEMLContent\<close> begins with the entries of the header
  array joined by CR LF, and an empty line. The entries are \<open>From\<close>, \<open>To\<close>, \<open>Subject\<close>,
  \<open>Date\<close>, \<open>MIME-Version\<close>, \<open>Content-Type\<close> and \<open>X-Mailer\<close>, in this order, whatever
  their values (an empty sender, recipient list or subject gives an entry with an empty
  value), followed by the raw transport headers as one more entry unless they are the
  empty string. No entry is the empty string; the values are copied as they are, line
  breaks included.
\<close>

theorem createEMLContent_header_entries:
  "emlHeaderLines token now message =
     [js ''From: '' @ sender message,
      js ''To: '' @ join (js '', '') (recipients message),
      js ''Subject: '' @ subject message,
      js ''Date: '' @ toUTCString (emlDate now message),
      js ''MIME-Version: 1.0'',
      (if attachments message \<noteq> []
       then js ''Content-Type: multipart/mixed; boundary='' @ dquote @ emlBoundary token @ dquote
       else bodyContentType (body message)),
      js ''X-Mailer: pst-extractor'']
     @ (if headers message = [] then [] else [headers message])
   \<and> [] \<notin> set (emlHeaderLines token now message)
   \<and> startsWith (createEMLContent token now message)
        (join crlf (emlHeaderLines token now message) @ crlf @ crlf)"
proof -
  have "startsWith (createEMLContent token now message)
        (join crlf (emlHeaderLines token now message) @ crlf @ crlf)"
    by (simp add: createEMLContent_def startsWith_def Let_def)
  then show ?thesis
    by (simp add: emlHeaderLines_def orElse_def)
qed

subsection \<open>Attachment drain: the chunked loop\<close>

lemma primaryLoop_eof: "primaryLoop [] buffer chunks = (Inr chunks, [])"
  by (subst primaryLoop.simps) (simp add: bufferSize_def)

lemma primaryLoop_short:
  assumes "length buffer = bufferSize" and "length l < bufferSize"
  shows "primaryLoop (Chunk l # rest) buffer chunks =
           (Inr (chunks @ (if l = [] then [] else [l])), rest)"
  using assms by (subst primaryLoop.simps) (auto simp: min_def Let_def)

lemma primaryLoop_full_step:
  assumes "length buffer = bufferSize" and "length c = bufferSize"
  shows "primaryLoop (Chunk c # rest) buffer chunks = primaryLoop rest c (chunks @ [c])"
  using assms by (subst primaryLoop.simps) (simp add: bufferSize_def Let_def)

lemma primaryLoop_full_chunks:
  assumes "length buffer = bufferSize" and "\<forall>c\<in>set cs. length c = bufferSize"
  shows "\<exists>buffer'. length buffer' = bufferSize \<and>
           primaryLoop (map Chunk cs @ rest) buffer chunks = primaryLoop rest buffer' (chunks @ cs)"
  using assms
proof (induction cs arbitrary: buffer chunks)
  case Nil
  then show ?case by auto
next
  case (Cons c cs)
  then have c: "length c = bufferSize" and cs: "\<forall>c\<in>set cs. length c = bufferSize"
    by simp_all
  from Cons.IH [OF c cs, of "chunks @ [c]"] obtain buffer' where
    "length buffer' = bufferSize"
    "primaryLoop (map Chunk cs @ rest) c (chunks @ [c]) = primaryLoop rest buffer' ((chunks @ [c]) @ cs)"
    by blast
  with primaryLoop_full_step [OF Cons.prems(1) c] show ?case
    by auto
qed

lemma full_chunks_concat:
  assumes "\<forall>c\<in>set cs. length c = bufferSize"
  shows "(cs @ (if l = [] then [] else [l]) = []) = (concat cs @ l = [])"
proof (cases cs)
  case Nil
  then show ?thesis by simp
next
  case (Cons c cs')
  with assms have "length c = bufferSize" by simp
  then have "c \<noteq> []" by (auto simp: bufferSize_def)
  with Cons show ?thesis by simp
qed

text \<open>
  C6 as stated fails: a stream that delivers two bytes in two chunks of one byte each
  (both no larger than the buffer) is drained up to the first chunk only, because the
  loop ends at the first read that returns fewer bytes than the buffer holds.
\<close>

theorem primary_drain_stops_at_short_chunk:
  "primaryLoop [Chunk [1], Chunk [2]] (replicate bufferSize 0) [] = (Inr [[1]], [Chunk [2]])
   \<and> drainStream textAttachment [Chunk [1], Chunk [2]] =
       [\<lparr>filename = js ''notes_a.txt'', data = [1],
         contentType = Some (js ''application/octet-stream'')\<rparr>]"
  by (simp add: drainStream_def primaryStrategy_def primaryLoop.simps bufferSize_def
      makeAttachment_def andThen_def textAttachment_def sanitizeFilename_def invalidChars_def
      underscore_def orElse_def js_def dquote_def)

text \<open>
  C6, amended. When the stream delivers its bytes as chunks of exactly \<open>bufferSize\<close>
  (8176) bytes followed by one chunk shorter than that, or by the end of the stream, the
  chunked loop returns exactly those bytes in stream order and reads nothing behind the
  short chunk; the record pushed for the attachment holds exactly those bytes.
\<close>

theorem primary_drain_full_chunks:
  assumes "\<forall>c\<in>set cs. length c = bufferSize" and "length l < bufferSize"
  shows "(\<exists>chunks. primaryLoop (map Chunk cs @ Chunk l # rest) (replicate bufferSize 0) []
                     = (Inr chunks, rest) \<and> concat chunks = concat cs @ l)
       \<and> (\<exists>chunks. primaryLoop (map Chunk cs) (replicate bufferSize 0) []
                     = (Inr chunks, []) \<and> concat chunks = concat cs)
       \<and> primaryStrategy a (map Chunk cs @ Chunk l # rest) =
           (if concat cs @ l = [] then Inr []
            else andThen (makeAttachment a (concat cs @ l)) (\<lambda>x. Inr [x]), rest)"
proof -
  have b: "length (replicate bufferSize (0::byte)) = bufferSize" by simp
  obtain b1 where "length b1 = bufferSize"
    and "primaryLoop (map Chunk cs @ Chunk l # rest) (replicate bufferSize 0) []
         = primaryLoop (Chunk l # rest) b1 ([] @ cs)"
    using primaryLoop_full_chunks [OF b assms(1), of "Chunk l # rest" "[]"] by blast
  then have 1: "primaryLoop (map Chunk cs @ Chunk l # rest) (replicate bufferSize 0) []
         = (Inr (cs @ (if l = [] then [] else [l])), rest)"
    using primaryLoop_short [OF _ assms(2)] by simp
  obtain b2 where "primaryLoop (map Chunk cs @ []) (replicate bufferSize 0) []
         = primaryLoop [] b2 ([] @ cs)"
    using primaryLoop_full_chunks [OF b assms(1), of "[]" "[]"] by blast
  then have 2: "primaryLoop (map Chunk cs) (replicate bufferSize 0) [] = (Inr cs, [])"
    by (simp add: primaryLoop_eof)
  have c: "concat (cs @ (if l = [] then [] else [l])) = concat cs @ l"
    by simp
  have 3: "primaryStrategy a (map Chunk cs @ Chunk l # rest) =
           (if concat cs @ l = [] then Inr []
            else andThen (makeAttachment a (concat cs @ l)) (\<lambda>x. Inr [x]), rest)"
    unfolding primaryStrategy_def 1 using full_chunks_concat [OF assms(1), of l]
    by (simp only: c prod.case sum.case split: if_splits) auto
  from 1 2 3 show ?thesis by auto
qed

theorem primary_drain_full_chunks_witness:
  "list_all (\<lambda>c. length c = bufferSize) [replicate bufferSize (7::byte)]
   \<and> length [9::byte] < bufferSize
   \<and> (\<exists>chunks. primaryLoop [Chunk (replicate bufferSize 7), Chunk [9], Chunk [5]] (replicate bufferSize 0) []
                     = (Inr chunks, [Chunk [5]]) \<and> concat chunks = replicate bufferSize 7 @ [9])"
proof -
  have h1: "\<forall>c\<in>set [replicate bufferSize (7::byte)]. length c = bufferSize" by simp
  have h2: "length [9::byte] < bufferSize" by (simp add: bufferSize_def)
  show ?thesis
    using h2 primary_drain_full_chunks [OF h1 h2, of "[Chunk [5]]"] by simp
qed

subsection \<open>Attachment drain: what reaches a record\<close>

lemma readBlock_chunk_nonempty:
  assumes "readBlock s buffer = (Inr (n, buffer'), s')" and "0 < n"
  shows "take (nat n) buffer' \<noteq> []"
proof (cases s)
  case Nil
  with assms show ?thesis by simp
next
  case (Cons ev rest)
  show ?thesis
  proof (cases ev)
    case Fault
    with Cons assms show ?thesis by simp
  next
    case (Chunk c)
    with Cons assms show ?thesis
      by (auto simp: Let_def min_def split: if_splits)
  qed
qed

lemma primaryLoop_chunks_nonempty:
  "primaryLoop s buffer chunks = (Inr chunks', s') \<Longrightarrow> [] \<notin> set chunks \<Longrightarrow> [] \<notin> set chunks'"
proof (induction s buffer chunks rule: primaryLoop.induct)
  case (1 s buffer chunks)
  obtain r s1 where rb: "readBlock s buffer = (r, s1)" by (cases "readBlock s buffer")
  show ?case
  proof (cases r)
    case (Inl e)
    with rb "1.prems" show ?thesis
      by (subst (asm) primaryLoop.simps) simp
  next
    case (Inr p)
    obtain n buffer' where p: "p = (n, buffer')" by (cases p)
    define chunks1 where "chunks1 = (if n > 0 then chunks @ [take (nat n) buffer'] else chunks)"
    have ne: "[] \<notin> set chunks1"
      using "1.prems"(2) readBlock_chunk_nonempty [of s buffer n buffer' s1] rb Inr p
      by (auto simp: chunks1_def)
    show ?thesis
    proof (cases "n = int bufferSize")
      case True
      with rb Inr p "1.prems"(1) have "primaryLoop s1 buffer' chunks1 = (Inr chunks', s')"
        by (subst (asm) primaryLoop.simps) (auto simp: chunks1_def Let_def split: if_splits)
      with "1.IH" [OF rb [symmetric] Inr p [symmetric] chunks1_def True] ne show ?thesis
        by simp
    next
      case False
      with rb Inr p "1.prems"(1) have "chunks' = chunks1"
        by (subst (asm) primaryLoop.simps) (auto simp: chunks1_def Let_def split: if_splits)
      with ne show ?thesis by simp
    qed
  qed
qed

lemma makeAttachment_props:
  "makeAttachment a bytes = Inr x \<Longrightarrow>
     data x = bytes \<and> (\<exists>mt. mimeTag a = Inr mt \<and> contentType x = Some (orElse mt (js ''application/octet-stream'')))
     \<and> (\<exists>raw. filename x = sanitizeFilename raw)"
  by (auto simp: makeAttachment_def andThen_def split: sum.splits if_splits)

lemma primaryStrategy_props:
  assumes "primaryStrategy a s = (Inr pushed, s')" and "x \<in> set pushed"
  shows "data x \<noteq> [] \<and> (\<exists>mt. mimeTag a = Inr mt \<and> contentType x = Some (orElse mt (js ''application/octet-stream'')))"
proof -
  obtain r s1 where pl: "primaryLoop s (replicate bufferSize 0) [] = (r, s1)"
    by (cases "primaryLoop s (replicate bufferSize 0) []")
  show ?thesis
  proof (cases r)
    case (Inl e)
    with pl assms show ?thesis by (simp add: primaryStrategy_def)
  next
    case (Inr chunks)
    with pl have ne: "[] \<notin> set chunks"
      using primaryLoop_chunks_nonempty [of s "replicate bufferSize 0" "[]" chunks s1] by simp
    show ?thesis
    proof (cases "chunks = []")
      case True
      with pl Inr assms show ?thesis by (simp add: primaryStrategy_def)
    next
      case False
      with ne have c: "concat chunks \<noteq> []" by (cases chunks) auto
      from False pl Inr assms have "makeAttachment a (concat chunks) = Inr x"
        by (auto simp: primaryStrategy_def andThen_def split: sum.splits)
      with c makeAttachment_props [of a "concat chunks" x] show ?thesis by auto
    qed
  qed
qed

lemma fallbackStrategy_props:
  assumes "fallbackStrategy a s = Inr pushed" and "x \<in> set pushed"
  shows "data x \<noteq> [] \<and> (\<exists>mt. mimeTag a = Inr mt \<and> contentType x = Some (orElse mt (js ''application/octet-stream'')))"
proof -
  from assms obtain raw where "raw \<noteq> []" "makeAttachment a (map word_of_int raw) = Inr x"
    by (auto simp: fallbackStrategy_def andThen_def split: sum.splits if_splits prod.splits)
  with makeAttachment_props [of a "map word_of_int raw" x] show ?thesis by auto
qed

lemma drainStream_props:
  assumes "x \<in> set (drainStream a s)"
  shows "data x \<noteq> [] \<and> (\<exists>mt. mimeTag a = Inr mt \<and> contentType x = Some (orElse mt (js ''application/octet-stream'')))"
proof -
  obtain r s' where ps: "primaryStrategy a s = (r, s')"
    by (cases "primaryStrategy a s")
  show ?thesis
  proof (cases r)
    case (Inr pushed)
    with ps assms have "x \<in> set pushed" by (simp add: drainStream_def)
    with ps Inr show ?thesis using primaryStrategy_props [of a s pushed s' x] by simp
  next
    case (Inl e)
    with ps assms obtain pushed where "fallbackStrategy a s' = Inr pushed" "x \<in> set pushed"
      by (cases "fallbackStrategy a s'") (simp_all add: drainStream_def)
    then show ?thesis by (rule fallbackStrategy_props)
  qed
qed

lemma orElse_nonempty: "d \<noteq> [] \<Longrightarrow> orElse v d \<noteq> []"
  by (simp add: orElse_def)

lemma drainStream_OK:
  assumes "x \<in> set (drainStream a s)"
  shows "attachmentOK x"
proof -
  from drainStream_props [OF assms] obtain mt where
    "data x \<noteq> []" "contentType x = Some (orElse mt (js ''application/octet-stream''))"
    by blast
  moreover have "orElse mt (js ''application/octet-stream'') \<noteq> []"
    by (rule orElse_nonempty) simp
  ultimately show ?thesis
    by (simp add: attachmentOK_def)
qed

lemma extractAttachment_OK: "x \<in> set (extractAttachment item i) \<Longrightarrow> attachmentOK x"
  by (auto simp: extractAttachment_def attemptAttachment_def andThen_def
      dest: drainStream_OK split: sum.splits option.splits if_splits)

lemma attachmentLoop_eq:
  "attachmentLoop item n i acc = acc @ concat (map (extractAttachment item) [i..<nat n])"
proof (induction item n i acc rule: attachmentLoop.induct)
  case (1 item n i acc)
  show ?case
  proof (cases "int i < n")
    case True
    then have "[i..<nat n] = i # [Suc i..<nat n]"
      by (simp add: upt_conv_Cons)
    with True "1.IH" show ?thesis
      by (subst attachmentLoop.simps) simp
  next
    case False
    then show ?thesis
      by (subst attachmentLoop.simps) simp
  qed
qed

lemma itemAttachments_OK: "x \<in> set (itemAttachments item n) \<Longrightarrow> attachmentOK x"
  by (auto simp: itemAttachments_def attachmentLoop_eq dest: extractAttachment_OK split: if_splits)

subsection \<open>Walker: the records of an aggregate\<close>

lemma processItem_Processed:
  assumes "processItem item cur fd = Inr (Processed fd')"
  shows "(messages fd' = messages fd
          \<or> (\<exists>n m. numberOfAttachments item = Inr n
                \<and> buildMessage item (itemAttachments item n) = Inr m
                \<and> messages fd' = messages fd @ [m]))
         \<and> subfolders fd' = subfolders fd \<and> name fd' = name fd"
  using assms
  by (auto simp: processItem_def andThen_def Let_def
        pushMessage_def pushContact_def pushAppointment_def
      split: sum.splits if_splits prod.splits)

lemma loopTurn_messages:
  assumes "loopTurn item cur fd = (fd', nxt)"
  shows "(messages fd' = messages fd
          \<or> (\<exists>n m. numberOfAttachments item = Inr n
                \<and> buildMessage item (itemAttachments item n) = Inr m
                \<and> messages fd' = messages fd @ [m]))
         \<and> subfolders fd' = subfolders fd \<and> name fd' = name fd"
proof (cases "processItem item cur fd")
  case (Inl e)
  with assms show ?thesis by (simp add: loopTurn_def)
next
  case (Inr out)
  show ?thesis
  proof (cases out)
    case (Continue n c)
    with Inr assms show ?thesis by (cases n) (simp_all add: loopTurn_def)
  next
    case Break
    with Inr assms show ?thesis by (simp add: loopTurn_def)
  next
    case (Processed fd1)
    with Inr assms have "fd' = fd1" by (simp add: loopTurn_def)
    with Inr Processed processItem_Processed [of item cur fd fd1] show ?thesis by simp
  qed
qed

lemma contentLoop_inv:
  assumes step: "\<And>item n m. numberOfAttachments item = Inr n \<Longrightarrow>
                   buildMessage item (itemAttachments item n) = Inr m \<Longrightarrow> P m"
  shows "list_all P (messages fd) \<Longrightarrow>
         list_all P (messages (contentLoop item cur fd))
         \<and> subfolders (contentLoop item cur fd) = subfolders fd
         \<and> name (contentLoop item cur fd) = name fd"
proof (induction item cur fd rule: contentLoop.induct)
  case (1 item cur fd)
  obtain fd' nxt where lt: "loopTurn item cur fd = (fd', nxt)"
    by (cases "loopTurn item cur fd")
  from loopTurn_messages [OF lt] step "1.prems"
  have fd': "list_all P (messages fd')" "subfolders fd' = subfolders fd" "name fd' = name fd"
    by auto
  show ?case
  proof (cases nxt)
    case None
    with lt have "contentLoop item cur fd = fd'"
      by (subst contentLoop.simps) simp
    with fd' show ?thesis by simp
  next
    case (Some p)
    obtain it cur' where p: "p = (it, cur')" by (cases p)
    from lt Some p have eq: "contentLoop item cur fd = contentLoop it cur' fd'"
      by (subst contentLoop.simps) simp
    from "1.IH" [OF lt [symmetric] Some p [symmetric] fd'(1)] fd'(2,3) show ?thesis
      unfolding eq by simp
  qed
qed

lemma enumerateContent_inv:
  assumes step: "\<And>item n m. numberOfAttachments item = Inr n \<Longrightarrow>
                   buildMessage item (itemAttachments item n) = Inr m \<Longrightarrow> P m"
    and "list_all P (messages fd)"
  shows "list_all P (messages (enumerateContent cnt cur fd))
         \<and> subfolders (enumerateContent cnt cur fd) = subfolders fd
         \<and> name (enumerateContent cnt cur fd) = name fd"
proof (cases "cnt > 0")
  case False
  with assms(2) show ?thesis by (simp add: enumerateContent_def)
next
  case True
  obtain r cur' where g: "getNextChild cur = (r, cur')" by (cases "getNextChild cur")
  show ?thesis
  proof (cases r)
    case (Inl e)
    with g True assms(2) show ?thesis by (simp add: enumerateContent_def)
  next
    case (Inr nxt)
    show ?thesis
    proof (cases nxt)
      case None
      with g Inr True assms(2) show ?thesis by (simp add: enumerateContent_def)
    next
      case (Some item)
      with g Inr True have "enumerateContent cnt cur fd = contentLoop item cur' fd"
        by (simp add: enumerateContent_def)
      with contentLoop_inv [of P fd item cur', OF step assms(2)] show ?thesis by simp
    qed
  qed
qed

lemma enumerateContent_name:
  "name (enumerateContent cnt cur fd) = name fd"
  using enumerateContent_inv [of "\<lambda>m. True" fd cnt cur] by (simp add: list_all_iff)

lemma extractFolder_eq:
  "extractFolder f =
     andThen (displayName f) (\<lambda>dn.
     andThen (contentCount f) (\<lambda>cnt.
     andThen (hasSubfolders f) (\<lambda>hs.
       Inr (FolderData (orElse dn (js ''Unnamed Folder''))
              (messages (enumerateContent cnt (children f)
                 (FolderData (orElse dn (js ''Unnamed Folder'')) [] [] [] [])))
              (contacts (enumerateContent cnt (children f)
                 (FolderData (orElse dn (js ''Unnamed Folder'')) [] [] [] [])))
              (appointments (enumerateContent cnt (children f)
                 (FolderData (orElse dn (js ''Unnamed Folder'')) [] [] [] [])))
              (if hs \<and> \<not> subFoldersFail f then subfolderLoop (subFolderList f) [] else [])))))"
  by (cases f) (simp add: Let_def andThen_def enumerateContent_name split: sum.splits)

lemma extractFolder_Inr:
  assumes "extractFolder f = Inr fd"
  obtains dn cnt hs where "displayName f = Inr dn" "contentCount f = Inr cnt"
    "hasSubfolders f = Inr hs"
    "messages fd = messages (enumerateContent cnt (children f)
                     (FolderData (orElse dn (js ''Unnamed Folder'')) [] [] [] []))"
    "subfolders fd = (if hs \<and> \<not> subFoldersFail f then subfolderLoop (subFolderList f) [] else [])"
  using assms
  by (subst (asm) extractFolder_eq) (auto simp: andThen_def split: sum.splits)

lemma allMessages_eq: "allMessages fd = messages fd @ concat (map allMessages (subfolders fd))"
  by (cases fd) simp

lemma allSubfolders_eq:
  "allSubfolders fd = subfolders fd @ concat (map allSubfolders (subfolders fd))"
  by (cases fd) simp

lemma extractFolder_inv:
  assumes step: "\<And>item n m. numberOfAttachments item = Inr n \<Longrightarrow>
                   buildMessage item (itemAttachments item n) = Inr m \<Longrightarrow> P m"
  shows "(\<forall>fd. extractFolder f = Inr fd \<longrightarrow> list_all P (allMessages fd))"
    and "(list_all (\<lambda>d. list_all P (allMessages d)) acc \<longrightarrow>
           list_all (\<lambda>d. list_all P (allMessages d)) (subfolderLoop cs acc))"
proof (induction f and cs acc rule: extractFolder_subfolderLoop.induct)
  case (1 dn cnt hasSub cur subFail subs)
  show ?case
  proof (intro allI impI)
    fix fd
    assume e: "extractFolder (PSTFolder dn cnt hasSub cur subFail subs) = Inr fd"
    from extractFolder_Inr [OF e] obtain d c hs where
      m: "messages fd = messages (enumerateContent c cur
                     (FolderData (orElse d (js ''Unnamed Folder'')) [] [] [] []))"
      and s: "subfolders fd = (if hs \<and> \<not> subFail then subfolderLoop subs [] else [])"
      unfolding PSTFolder.sel by metis
    have m1: "list_all P (messages fd)"
      unfolding m
      using enumerateContent_inv [of P "FolderData (orElse d (js ''Unnamed Folder'')) [] [] [] []",
          OF step]
      by simp
    have s1: "list_all (\<lambda>d. list_all P (allMessages d)) (subfolders fd)"
    proof (cases "hs \<and> \<not> subFail")
      case True
      then have "list_all (\<lambda>d. list_all P (allMessages d)) (subfolderLoop subs [])"
        using "1.IH" [OF refl] by simp
      with True s show ?thesis by simp
    next
      case False
      with s show ?thesis by simp
    qed
    from m1 s1 show "list_all P (allMessages fd)"
      by (subst allMessages_eq) (auto simp: list_all_iff)
  qed
next
  case (2 acc)
  then show ?case by simp
next
  case (3 childFolder rest acc)
  then show ?case
    by (auto split: sum.splits)
qed

subsection \<open>Attachment drain: the fallback and the dropped attachments\<close>

lemma buildMessage_attachments:
  "buildMessage item atts =
     (case buildMessage item [] of Inl e \<Rightarrow> Inl e | Inr m \<Rightarrow> Inr (m\<lparr>attachments := atts\<rparr>))"
  by (simp add: buildMessage_def andThen_def split: sum.splits prod.splits)

lemma drainStream_fallback:
  assumes "primaryStrategy a s = (Inl e, s')" and "attSize a = Inr sz"
  shows "drainStream a s =
        (if sz \<noteq> 0 \<and> sz < 1024 * 1024
         then (case fallbackLoop s' [] of
                 (Inl fallbackError, s'') \<Rightarrow> []
               | (Inr rawData, s'') \<Rightarrow>
                   if rawData = [] then []
                   else (case makeAttachment a (map word_of_int rawData) of
                           Inl fallbackError \<Rightarrow> [] | Inr x \<Rightarrow> [x]))
         else [])"
  using assms
  by (simp add: drainStream_def fallbackStrategy_def andThen_def split: prod.splits sum.splits)

lemma drainStream_no_data:
  assumes "fst (primaryLoop s (replicate bufferSize 0) []) = Inr []"
  shows "drainStream a s = []"
proof -
  obtain s' where "primaryLoop s (replicate bufferSize 0) [] = (Inr [], s')"
    using assms by (cases "primaryLoop s (replicate bufferSize 0) []") simp
  then show ?thesis
    by (simp add: drainStream_def primaryStrategy_def)
qed

lemma drainStream_all_OK:
  "list_all (\<lambda>x. data x \<noteq> [] \<and> (\<exists>mt. mimeTag a = Inr mt \<and>
      contentType x = Some (orElse mt (js ''application/octet-stream'')))) (drainStream a s)"
  using drainStream_props [of _ a s] by (simp add: list_all_iff)

lemma buildMessage_attachments_OK:
  assumes "numberOfAttachments item = Inr n" and "buildMessage item (itemAttachments item n) = Inr m"
  shows "list_all attachmentOK (attachments m)"
proof -
  from assms(2) have "attachments m = itemAttachments item n"
    by (subst (asm) buildMessage_attachments) (auto split: sum.splits)
  then show ?thesis
    using itemAttachments_OK [of _ item n] by (simp add: list_all_iff)
qed

lemma extractFolder_attachments_OK:
  assumes "extractFolder f = Inr fd"
  shows "list_all (\<lambda>m. list_all attachmentOK (attachments m)) (allMessages fd)"
proof -
  have "\<forall>fd. extractFolder f = Inr fd \<longrightarrow>
          list_all (\<lambda>m. list_all attachmentOK (attachments m)) (allMessages fd)"
  proof (rule extractFolder_inv(1))
    fix item n m
    assume "numberOfAttachments item = Inr n"
      and "buildMessage item (itemAttachments item n) = Inr m"
    then show "list_all attachmentOK (attachments m)"
      by (rule buildMessage_attachments_OK)
  qed
  with assms show ?thesis by blast
qed

lemma extractAttachment_drain:
  assumes "getAttachment item i = Inr (Some a)" and "attFilename a = Inr fname"
    and "fname \<noteq> []" and "fileInputStream a = Inr (Some s)"
  shows "extractAttachment item i = drainStream a s"
  using assms by (simp add: extractAttachment_def attemptAttachment_def andThen_def)

lemma startsWith_append: "startsWith s (p @ q) \<Longrightarrow> startsWith s p"
proof -
  assume "startsWith s (p @ q)"
  then have "take (length p + length q) s = p @ q"
    by (simp add: startsWith_def)
  then have "take (length p) (take (length p + length q) s) = p"
    by simp
  then show ?thesis
    by (simp add: startsWith_def min_def)
qed

lemma note_is_IPM:
  assumes "cls = js ''IPM.Note'' \<or> startsWith cls (js ''IPM.Note.'')"
  shows "startsWith cls (js ''IPM.'')"
proof -
  have a: "js ''IPM.Note'' = js ''IPM.'' @ js ''Note''"
    and b: "js ''IPM.Note.'' = js ''IPM.'' @ js ''Note.''"
    by (simp_all add: js_def)
  from assms show ?thesis
  proof
    assume "cls = js ''IPM.Note''"
    then show ?thesis by (simp add: startsWith_def js_def)
  next
    assume "startsWith cls (js ''IPM.Note.'')"
    then show ?thesis unfolding b by (rule startsWith_append)
  qed
qed

lemma processItem_note:
  assumes "messageClass item = Inr cls"
    and "cls = js ''IPM.Note'' \<or> startsWith cls (js ''IPM.Note.'')"
    and "numberOfAttachments item = Inr n"
    and "buildMessage item [] = Inr m0"
  shows "processItem item cur fd =
           Inr (Processed (pushMessage (m0\<lparr>attachments := itemAttachments item n\<rparr>) fd))"
proof -
  have "buildMessage item (itemAttachments item n) =
          Inr (m0\<lparr>attachments := itemAttachments item n\<rparr>)"
    by (subst buildMessage_attachments) (simp add: assms(4))
  with assms(1-3) note_is_IPM [OF assms(2)] show ?thesis
    by (simp add: processItem_def andThen_def)
qed

text \<open>
  C7. When the chunked drain raises, the byte-wise loop runs on the same stream exactly
  when the declared size is known (\<open>attachment.size\<close> is truthy, that is, not \<open>0\<close>) and
  below 1 MiB, and what it read decides the record; otherwise, and when the chunked drain
  read no byte, when the byte-wise loop raises or when it read no byte, no record is
  pushed. This is what the walker does with an attachment that has a file name and a
  stream: the records pushed for an index are those of the drain, and the array of
  attachments is the concatenation of what each index pushed. An attachment that is
  dropped does not fail its message: the record of a message item is built exactly as
  it would be without attachments, the array apart, and it is pushed to the aggregate
  whenever it can be built without attachments. So every attachment of every record of
  every aggregate has a non-empty byte sequence and a content type, which is
  \<open>application/octet-stream\<close> when the reader gives none.
\<close>

theorem attachment_drain_policy:
  "(primaryStrategy a s = (Inl e, s') \<and> attSize a = Inr sz \<longrightarrow>
      drainStream a s =
        (if sz \<noteq> 0 \<and> sz < 1024 * 1024
         then (case fallbackLoop s' [] of
                 (Inl fallbackError, s'') \<Rightarrow> []
               | (Inr rawData, s'') \<Rightarrow>
                   if rawData = [] then []
                   else (case makeAttachment a (map word_of_int rawData) of
                           Inl fallbackError \<Rightarrow> [] | Inr x \<Rightarrow> [x]))
         else []))
   \<and> (fst (primaryLoop s (replicate bufferSize 0) []) = Inr [] \<longrightarrow> drainStream a s = [])
   \<and> list_all (\<lambda>x. data x \<noteq> [] \<and> (\<exists>mt. mimeTag a = Inr mt \<and>
        contentType x = Some (orElse mt (js ''application/octet-stream'')))) (drainStream a s)
   \<and> (getAttachment item i = Inr (Some a) \<and> attFilename a = Inr fname \<and> fname \<noteq> []
        \<and> fileInputStream a = Inr (Some s) \<longrightarrow>
        extractAttachment item i = drainStream a s)
   \<and> itemAttachments item n = (if n > 0 then concat (map (extractAttachment item) [0..<nat n]) else [])
   \<and> buildMessage item atts =
       (case buildMessage item [] of Inl e \<Rightarrow> Inl e | Inr m \<Rightarrow> Inr (m\<lparr>attachments := atts\<rparr>))
   \<and> (messageClass item = Inr cls
        \<and> (cls = js ''IPM.Note'' \<or> startsWith cls (js ''IPM.Note.''))
        \<and> numberOfAttachments item = Inr n \<and> buildMessage item [] = Inr m0 \<longrightarrow>
        processItem item cur folderData =
          Inr (Processed (pushMessage (m0\<lparr>attachments := itemAttachments item n\<rparr>) folderData)))
   \<and> (extractFolder f = Inr fd \<longrightarrow>
        list_all (\<lambda>m. list_all attachmentOK (attachments m)) (allMessages fd))"
proof (intro conjI impI)
  assume "primaryStrategy a s = (Inl e, s') \<and> attSize a = Inr sz"
  then show "drainStream a s =
        (if sz \<noteq> 0 \<and> sz < 1024 * 1024
         then (case fallbackLoop s' [] of
                 (Inl fallbackError, s'') \<Rightarrow> []
               | (Inr rawData, s'') \<Rightarrow>
                   if rawData = [] then []
                   else (case makeAttachment a (map word_of_int rawData) of
                           Inl fallbackError \<Rightarrow> [] | Inr x \<Rightarrow> [x]))
         else [])"
    using drainStream_fallback [of a s e s' sz] by blast
next
  assume "fst (primaryLoop s (replicate bufferSize 0) []) = Inr []"
  then show "drainStream a s = []" by (rule drainStream_no_data)
next
  show "list_all (\<lambda>x. data x \<noteq> [] \<and> (\<exists>mt. mimeTag a = Inr mt \<and>
        contentType x = Some (orElse mt (js ''application/octet-stream'')))) (drainStream a s)"
    by (rule drainStream_all_OK)
next
  assume "getAttachment item i = Inr (Some a) \<and> attFilename a = Inr fname \<and> fname \<noteq> []
        \<and> fileInputStream a = Inr (Some s)"
  then show "extractAttachment item i = drainStream a s"
    using extractAttachment_drain [of item i a fname s] by blast
next
  show "itemAttachments item n = (if n > 0 then concat (map (extractAttachment item) [0..<nat n]) else [])"
    by (simp add: itemAttachments_def attachmentLoop_eq)
next
  show "buildMessage item atts =
       (case buildMessage item [] of Inl e \<Rightarrow> Inl e | Inr m \<Rightarrow> Inr (m\<lparr>attachments := atts\<rparr>))"
    by (rule buildMessage_attachments)
next
  assume "messageClass item = Inr cls
        \<and> (cls = js ''IPM.Note'' \<or> startsWith cls (js ''IPM.Note.''))
        \<and> numberOfAttachments item = Inr n \<and> buildMessage item [] = Inr m0"
  then show "processItem item cur folderData =
          Inr (Processed (pushMessage (m0\<lparr>attachments := itemAttachments item n\<rparr>) folderData))"
    using processItem_note [of item cls n m0 cur folderData] by blast
next
  assume "extractFolder f = Inr fd"
  then show "list_all (\<lambda>m. list_all attachmentOK (attachments m)) (allMessages fd)"
    by (rule extractFolder_attachments_OK)
qed

lemma faulty_primary:
  "primaryStrategy a [Fault, Chunk [1], Chunk [2]] = (Inl StreamError, [Chunk [1], Chunk [2]])"
  by (simp add: primaryStrategy_def primaryLoop.simps)

lemma fallback_sample: "fallbackLoop [Chunk [1], Chunk [2]] [] = (Inr [1, 2], [])"
  by code_simp

lemma faulty_made:
  "makeAttachment faultyAttachment [1, 2] =
      Inr \<lparr>filename = js ''notes_a.txt'', data = [1, 2],
         contentType = Some (js ''application/octet-stream'')\<rparr>"
  by (simp add: makeAttachment_def andThen_def faultyAttachment_def textAttachment_def
      sanitizeFilename_def invalidChars_def underscore_def orElse_def js_def dquote_def)

lemma faulty_drained:
  "drainStream faultyAttachment [Fault, Chunk [1], Chunk [2]] =
       [\<lparr>filename = js ''notes_a.txt'', data = [1, 2],
         contentType = Some (js ''application/octet-stream'')\<rparr>]"
proof -
  have "attSize faultyAttachment = Inr 2"
    by (simp add: faultyAttachment_def textAttachment_def)
  with drainStream_fallback [OF faulty_primary this] show ?thesis
    by (simp add: fallback_sample faulty_made)
qed

lemma unsized_drained: "drainStream unsizedAttachment [Fault, Chunk [1], Chunk [2]] = []"
proof -
  have "attSize unsizedAttachment = Inr 0"
    by (simp add: unsizedAttachment_def)
  with drainStream_fallback [OF faulty_primary this] show ?thesis
    by simp
qed

lemma mailItem_table:
  "getAttachment mailItem 0 = Inr (Some faultyAttachment)"
  "getAttachment mailItem (Suc 0) = Inr (Some unsizedAttachment)"
  "attFilename faultyAttachment = Inr (js ''a.txt'')"
  "attFilename unsizedAttachment = Inr (js ''a.txt'')"
  "fileInputStream faultyAttachment = Inr (Some [Fault, Chunk [1], Chunk [2]])"
  "fileInputStream unsizedAttachment = Inr (Some [Fault, Chunk [1], Chunk [2]])"
  by (simp_all add: getAttachment_def mailItem_def unsizedAttachment_def faultyAttachment_def
      textAttachment_def)

lemma mailItem_attachments:
  "itemAttachments mailItem 2 =
     [\<lparr>filename = js ''notes_a.txt'', data = [1, 2],
       contentType = Some (js ''application/octet-stream'')\<rparr>]"
proof -
  have "extractAttachment mailItem 0 = drainStream faultyAttachment [Fault, Chunk [1], Chunk [2]]"
    by (rule extractAttachment_drain [OF mailItem_table(1) mailItem_table(3) _ mailItem_table(5)])
      simp
  moreover have "extractAttachment mailItem (Suc 0) =
      drainStream unsizedAttachment [Fault, Chunk [1], Chunk [2]]"
    by (rule extractAttachment_drain [OF mailItem_table(2) mailItem_table(4) _ mailItem_table(6)])
      simp
  moreover have "[0..<nat 2] = [0, Suc 0]"
    by (simp add: upt_conv_Cons)
  ultimately show ?thesis
    by (simp add: itemAttachments_def attachmentLoop_eq faulty_drained unsized_drained)
qed

lemma mailItem_class:
  "messageClass mailItem = Inr (js ''IPM.Note'')" "numberOfAttachments mailItem = Inr 2"
  "buildMessage mailItem [] = Inr noteRecord"
  by (simp_all add: buildMessage_def chooseBody_def andThen_def mailItem_def noteItem_def
        noteRecord_def orElse_def sanitizeFilename_def invalidChars_def underscore_def
        dquote_def trim_def isWhiteSpace_def js_def)

lemma mailItem_processed:
  "processItem mailItem cur fd = Inr (Processed (pushMessage mailRecord fd))"
  using processItem_note [OF mailItem_class(1) _ mailItem_class(2) mailItem_class(3), of cur fd]
  by (simp add: mailItem_attachments mailRecord_def)

lemma mailbox_extracted:
  "extractFolder mailbox = Inr (FolderData (js ''Inbox'') [mailRecord] [] [] [])"
proof -
  have "contentLoop mailItem [] fd = pushMessage mailRecord fd" for fd
    by (subst contentLoop.simps) (simp add: loopTurn_def mailItem_processed advance_def)
  then show ?thesis
    by (simp add: mailbox_def Let_def andThen_def enumerateContent_def pushMessage_def
        orElse_def)
qed

theorem attachment_drain_policy_witness:
  "primaryStrategy faultyAttachment [Fault, Chunk [1], Chunk [2]]
     = (Inl StreamError, [Chunk [1], Chunk [2]])
   \<and> attSize faultyAttachment = Inr 2
   \<and> drainStream faultyAttachment [Fault, Chunk [1], Chunk [2]] =
       [\<lparr>filename = js ''notes_a.txt'', data = [1, 2],
         contentType = Some (js ''application/octet-stream'')\<rparr>]
   \<and> attSize unsizedAttachment = Inr 0
   \<and> drainStream unsizedAttachment [Fault, Chunk [1], Chunk [2]] = []
   \<and> fst (primaryLoop [] (replicate bufferSize 0) []) = Inr []
   \<and> drainStream textAttachment [] = []
   \<and> attachmentTable mailItem = [Inr (Some faultyAttachment), Inr (Some unsizedAttachment)]
   \<and> extractAttachment mailItem 0 =
       [\<lparr>filename = js ''notes_a.txt'', data = [1, 2],
         contentType = Some (js ''application/octet-stream'')\<rparr>]
   \<and> extractAttachment mailItem 1 = []
   \<and> processItem mailItem [] emptyFolder = Inr (Processed (pushMessage mailRecord emptyFolder))
   \<and> extractFolder mailbox = Inr (FolderData (js ''Inbox'') [mailRecord] [] [] [])
   \<and> map data (attachments mailRecord) = [[1, 2]]
   \<and> list_all (\<lambda>m. list_all attachmentOK (attachments m))
        (allMessages (FolderData (js ''Inbox'') [mailRecord] [] [] []))"
proof -
  note p = faulty_primary
  have s2: "attSize faultyAttachment = Inr 2"
    by (simp add: faultyAttachment_def textAttachment_def)
  have s0: "attSize unsizedAttachment = Inr 0"
    by (simp add: unsizedAttachment_def)
  have e: "fst (primaryLoop [] (replicate bufferSize 0) []) = Inr []"
    by (simp add: primaryLoop.simps bufferSize_def)
  have d2: "drainStream faultyAttachment [Fault, Chunk [1], Chunk [2]] =
       [\<lparr>filename = js ''notes_a.txt'', data = [1, 2],
         contentType = Some (js ''application/octet-stream'')\<rparr>]"
    using p [of faultyAttachment] s2 fallback_sample faulty_made
      attachment_drain_policy [of faultyAttachment "[Fault, Chunk [1], Chunk [2]]" StreamError
        "[Chunk [1], Chunk [2]]" 2, THEN conjunct1]
    by simp
  have d0: "drainStream unsizedAttachment [Fault, Chunk [1], Chunk [2]] = []"
    using p [of unsizedAttachment] s0
      attachment_drain_policy [of unsizedAttachment
        "[Fault, Chunk [1], Chunk [2]]" StreamError "[Chunk [1], Chunk [2]]" 0, THEN conjunct1]
    by simp
  have de: "drainStream textAttachment [] = []"
    using e attachment_drain_policy [of textAttachment "[]", THEN conjunct2, THEN conjunct1]
    by simp
  have t: "attachmentTable mailItem = [Inr (Some faultyAttachment), Inr (Some unsizedAttachment)]"
    by (simp add: mailItem_def)
  have x0: "extractAttachment mailItem 0 = drainStream faultyAttachment [Fault, Chunk [1], Chunk [2]]"
    using mailItem_table
      attachment_drain_policy [of faultyAttachment "[Fault, Chunk [1], Chunk [2]]" _ _ _
        mailItem 0 "js ''a.txt''",
        THEN conjunct2, THEN conjunct2, THEN conjunct2, THEN conjunct1]
    by simp
  have x1: "extractAttachment mailItem 1 = drainStream unsizedAttachment [Fault, Chunk [1], Chunk [2]]"
    using mailItem_table
      attachment_drain_policy [of unsizedAttachment "[Fault, Chunk [1], Chunk [2]]" _ _ _
        mailItem 1 "js ''a.txt''",
        THEN conjunct2, THEN conjunct2, THEN conjunct2, THEN conjunct1]
    by simp
  have "[0..<nat 2] = [0, 1]"
    by (simp add: upt_conv_Cons)
  with x0 x1 d2 d0 have ia: "itemAttachments mailItem 2 =
       [\<lparr>filename = js ''notes_a.txt'', data = [1, 2],
         contentType = Some (js ''application/octet-stream'')\<rparr>]"
    using attachment_drain_policy [of _ _ _ _ _ mailItem _ _ 2,
        THEN conjunct2, THEN conjunct2, THEN conjunct2, THEN conjunct2, THEN conjunct1]
    by simp
  have pr: "processItem mailItem [] emptyFolder =
      Inr (Processed (pushMessage mailRecord emptyFolder))"
    using mailItem_class ia
      attachment_drain_policy [of _ _ _ _ _ mailItem _ _ 2 _ "js ''IPM.Note''" noteRecord
        "[]" emptyFolder,
        THEN conjunct2, THEN conjunct2, THEN conjunct2, THEN conjunct2, THEN conjunct2,
        THEN conjunct2, THEN conjunct1]
    by (simp add: mailRecord_def)
  have r: "map data (attachments mailRecord) = [[1, 2]]"
    by (simp add: mailRecord_def)
  have ok: "list_all (\<lambda>m. list_all attachmentOK (attachments m))
        (allMessages (FolderData (js ''Inbox'') [mailRecord] [] [] []))"
    using mailbox_extracted
      attachment_drain_policy [of _ _ _ _ _ _ _ _ _ _ _ _ _ _ mailbox
        "FolderData (js ''Inbox'') [mailRecord] [] [] []"]
    by blast
  from p [of faultyAttachment] s2 d2 s0 d0 e de t x0 x1 pr mailbox_extracted r ok show ?thesis
    by simp
qed

subsection \<open>Walker: the sample folder\<close>

lemma noteItem_record:
  "buildMessage noteItem atts =
     Inr \<lparr>subject = js ''Re_ a_b'', sender = js ''a@x'', recipients = [js ''b@x'', js ''c@x''],
          body = js ''{rtf}'', sentDate = Some epoch, receivedDate = Some epoch, headers = [],
          attachments = atts\<rparr>"
  by (simp add: buildMessage_def chooseBody_def andThen_def noteItem_def orElse_def
      sanitizeFilename_def invalidChars_def underscore_def dquote_def trim_def isWhiteSpace_def
      js_def)

lemma noteItem_processed:
  "processItem noteItem cur fd =
     Inr (Processed (pushMessage
       \<lparr>subject = js ''Re_ a_b'', sender = js ''a@x'', recipients = [js ''b@x'', js ''c@x''],
        body = js ''{rtf}'', sentDate = Some epoch, receivedDate = Some epoch, headers = [],
        attachments = []\<rparr> fd))"
proof -
  have "messageClass noteItem = Inr (js ''IPM.Note'')" "numberOfAttachments noteItem = Inr 0"
    by (simp_all add: noteItem_def)
  moreover have "startsWith (js ''IPM.Note'') (js ''IPM.'')"
    by (simp add: startsWith_def js_def)
  ultimately show ?thesis
    by (simp add: processItem_def andThen_def itemAttachments_def noteItem_record)
qed

lemma brokenItem_raises: "processItem brokenItem cur fd = Inl ReaderError"
  by (simp add: processItem_def brokenItem_def andThen_def)

lemma contentLoop_note: "contentLoop noteItem [] fd = pushMessage noteRecord fd"
  by (subst contentLoop.simps) (simp add: loopTurn_def noteItem_processed advance_def noteRecord_def)

lemma contentLoop_broken:
  "contentLoop brokenItem [NextItem noteItem] fd = pushMessage noteRecord fd"
  by (subst contentLoop.simps) (simp add: loopTurn_def brokenItem_raises advance_def contentLoop_note)

lemma sub_extracted:
  "extractFolder (PSTFolder (Inr (js ''Sub'')) (Inr 1) (Inr False) [NextItem noteItem] False []) =
     Inr (FolderData (js ''Sub'') [noteRecord] [] [] [])"
  by (simp add: Let_def andThen_def enumerateContent_def contentLoop_note pushMessage_def
      orElse_def)

lemma empty_extracted:
  "extractFolder (PSTFolder (Inr (js ''Empty'')) (Inr 0) (Inr False) [] False []) =
     Inr (FolderData (js ''Empty'') [] [] [] [])"
  by (simp add: Let_def andThen_def enumerateContent_def orElse_def)

lemma inbox_extracted:
  "extractFolder inbox =
     Inr (FolderData (js ''Inbox'') [noteRecord] [] []
            [FolderData (js ''Sub'') [noteRecord] [] [] []])"
  by (simp add: inbox_def Let_def andThen_def enumerateContent_def contentLoop_broken
      contentLoop_note pushMessage_def orElse_def nonEmpty_def)

lemma brokenFolder_raises: "extractFolder brokenFolder = Inl ReaderError"
  by (simp add: brokenFolder_def andThen_def)

lemma contentLoop_stopped:
  "contentLoop noteItem (NextFails # cur) fd = pushMessage noteRecord fd"
  by (subst contentLoop.simps) (simp add: loopTurn_def noteItem_processed advance_def noteRecord_def)

lemma contentLoop_faulty:
  "contentLoop brokenItem (NextItem noteItem # NextFails # cur) fd = pushMessage noteRecord fd"
  by (subst contentLoop.simps)
    (simp add: loopTurn_def brokenItem_raises advance_def contentLoop_stopped)

lemma faultyInbox_extracted:
  "extractFolder faultyInbox =
     Inr (FolderData (js ''Inbox'') [noteRecord] [] []
            [FolderData (js ''Sub'') [noteRecord] [] [] []])"
  by (simp add: faultyInbox_def Let_def andThen_def enumerateContent_def contentLoop_faulty
      contentLoop_note pushMessage_def orElse_def nonEmpty_def brokenFolder_raises)

lemma untitledItem_processed:
  "processItem untitledItem cur fd = Inr (Processed (pushMessage untitledRecord fd))"
proof -
  have "messageClass untitledItem = Inr (js ''IPM.Note'')"
    "numberOfAttachments untitledItem = Inr 0"
    by (simp_all add: untitledItem_def noteItem_def)
  moreover have "buildMessage untitledItem [] = Inr untitledRecord"
    by (simp add: buildMessage_def chooseBody_def andThen_def untitledItem_def noteItem_def
        untitledRecord_def noteRecord_def orElse_def sanitizeFilename_def invalidChars_def
        underscore_def dquote_def trim_def isWhiteSpace_def js_def)
  ultimately show ?thesis
    using processItem_note [of untitledItem "js ''IPM.Note''" 0 untitledRecord cur fd]
    by (simp add: itemAttachments_def untitledRecord_def noteRecord_def)
qed

lemma drafts_extracted:
  "extractFolder drafts = Inr (FolderData (js ''Drafts'') [untitledRecord, mailRecord] [] [] [])"
proof -
  have "contentLoop mailItem [] fd = pushMessage mailRecord fd" for fd
    by (subst contentLoop.simps) (simp add: loopTurn_def mailItem_processed advance_def)
  then have "contentLoop untitledItem [NextItem mailItem] fd =
          pushMessage mailRecord (pushMessage untitledRecord fd)" for fd
    by (subst contentLoop.simps) (simp add: loopTurn_def untitledItem_processed advance_def)
  then show ?thesis
    by (simp add: drafts_def Let_def andThen_def enumerateContent_def pushMessage_def
        orElse_def)
qed

lemma sanitize_long: "sanitizeFilename (replicate 180 0x53) = replicate 180 0x53"
proof -
  have "(0x53 :: code_unit) \<notin> set invalidChars"
    by (simp add: invalidChars_def dquote_def js_def)
  then have "map (\<lambda>c. if c \<in> set invalidChars then underscore else c) (replicate 180 0x53)
          = replicate 180 (0x53 :: code_unit)"
    by (simp add: map_replicate)
  then show ?thesis
    by (simp add: sanitizeFilename_def)
qed

lemma longItem_processed:
  "processItem longItem cur fd = Inr (Processed (pushMessage longRecord fd))"
proof -
  have "messageClass longItem = Inr (js ''IPM.Note'')"
    "numberOfAttachments longItem = Inr 0"
    by (simp_all add: longItem_def noteItem_def)
  moreover have "orElse (replicate 180 (0x53 :: code_unit)) d = replicate 180 0x53" for d
    by (simp add: orElse_def)
  then have "buildMessage longItem [] = Inr longRecord"
    by (simp add: buildMessage_def chooseBody_def andThen_def longItem_def noteItem_def
        longRecord_def noteRecord_def sanitize_long trim_def isWhiteSpace_def js_def
        orElse_def)
  ultimately show ?thesis
    using processItem_note [of longItem "js ''IPM.Note''" 0 longRecord cur fd]
    by (simp add: itemAttachments_def longRecord_def noteRecord_def)
qed

lemma archive_extracted:
  "extractFolder archive = Inr (FolderData (js ''Archive'') [longRecord] [] [] [])"
proof -
  have "contentLoop longItem [] fd = pushMessage longRecord fd" for fd
    by (subst contentLoop.simps) (simp add: loopTurn_def longItem_processed advance_def)
  then show ?thesis
    by (simp add: archive_def Let_def andThen_def enumerateContent_def pushMessage_def
        orElse_def)
qed

subsection \<open>Walker: the body of a message record\<close>


lemma buildMessage_fields:
  assumes "buildMessage item atts = Inr m"
  shows "(\<exists>bt. chooseBody item = Inr (body m, bt))
         \<and> (\<exists>raw. itemSubject item = Inr raw
               \<and> subject m = sanitizeFilename (orElse raw (js ''(No Subject)'')))"
  using assms
  by (auto simp: buildMessage_def andThen_def split: sum.splits prod.splits)

lemma processItem_pushed:
  assumes "processItem item cur fd = Inr (Processed fd')" and "messages fd' \<noteq> messages fd"
  shows "\<exists>n m. numberOfAttachments item = Inr n
           \<and> buildMessage item (itemAttachments item n) = Inr m
           \<and> messages fd' = messages fd @ [m]"
  using processItem_Processed [OF assms(1)] assms(2) by blast



subsection \<open>Walker: the subject of a message record\<close>

lemma sanitizeFilename_idem: "sanitizeFilename (sanitizeFilename s) = sanitizeFilename s"
proof -
  have "map (\<lambda>c. if c \<in> set invalidChars then underscore else c) (sanitizeFilename s)
          = sanitizeFilename s"
    using sanitizeFilename_valid [of s] by (intro map_idI) auto
  then show ?thesis
    by (subst (1) sanitizeFilename_def) (simp add: Let_def sanitizeFilename_length)
qed

lemma sanitizeFilename_nonempty: "s \<noteq> [] \<Longrightarrow> sanitizeFilename s \<noteq> []"
  by (simp add: sanitizeFilename_def)

lemma subject_header: "emlHeaderLines token now m ! 2 = js ''Subject: '' @ subject m"
  by (simp add: emlHeaderLines_def)

lemma subject_serialized:
  "startsWith (createEMLContent token now m)
     (js ''From: '' @ sender m @ crlf @ js ''To: '' @ join (js '', '') (recipients m) @ crlf
      @ js ''Subject: '' @ subject m @ crlf)"
  by (simp add: createEMLContent_def emlHeaderLines_def startsWith_def Let_def)

lemma buildMessage_subject_OK:
  assumes "buildMessage item atts = Inr m"
  shows "subject m \<noteq> [] \<and> set (subject m) \<inter> set invalidChars = {}
         \<and> length (subject m) \<le> 180
         \<and> sanitizeFilename (subject m) = subject m"
proof -
  from buildMessage_fields [OF assms] obtain raw where
    s: "subject m = sanitizeFilename (orElse raw (js ''(No Subject)''))"
    by blast
  have "orElse raw (js ''(No Subject)'') \<noteq> []"
    by (rule orElse_nonempty) simp
  then have "subject m \<noteq> []"
    unfolding s by (rule sanitizeFilename_nonempty)
  with s show ?thesis
    by (auto simp: sanitizeFilename_valid sanitizeFilename_length sanitizeFilename_idem)
qed

lemma extractFolder_subjects_OK:
  assumes "extractFolder f = Inr fd"
  shows "list_all (\<lambda>m. subject m \<noteq> [] \<and> set (subject m) \<inter> set invalidChars = {}
         \<and> length (subject m) \<le> 180
         \<and> sanitizeFilename (subject m) = subject m) (allMessages fd)"
proof -
  have "\<forall>fd. extractFolder f = Inr fd \<longrightarrow>
      list_all (\<lambda>m. subject m \<noteq> [] \<and> set (subject m) \<inter> set invalidChars = {}
         \<and> length (subject m) \<le> 180
         \<and> sanitizeFilename (subject m) = subject m) (allMessages fd)"
  proof (rule extractFolder_inv(1))
    fix item n m
    assume "buildMessage item (itemAttachments item n) = Inr m"
    then show "subject m \<noteq> [] \<and> set (subject m) \<inter> set invalidChars = {}
         \<and> length (subject m) \<le> 180
         \<and> sanitizeFilename (subject m) = subject m"
      by (rule buildMessage_subject_OK)
  qed
  with assms show ?thesis by blast
qed

lemma processItem_subject:
  assumes "processItem item cur fd = Inr (Processed fd')" and "messages fd' \<noteq> messages fd"
  shows "\<exists>m raw. messages fd' = messages fd @ [m] \<and> itemSubject item = Inr raw
           \<and> subject m = sanitizeFilename (if raw = [] then js ''(No Subject)'' else raw)"
proof -
  from processItem_pushed [OF assms] obtain n m where
    b: "buildMessage item (itemAttachments item n) = Inr m"
    and m: "messages fd' = messages fd @ [m]"
    by blast
  from buildMessage_fields [OF b] obtain raw where
    "itemSubject item = Inr raw" "subject m = sanitizeFilename (orElse raw (js ''(No Subject)''))"
    by blast
  with m show ?thesis
    by (auto simp: orElse_def)
qed

lemma map_sanitized:
  assumes "set s \<inter> set invalidChars = {}"
  shows "map (\<lambda>c. if c \<in> set invalidChars then underscore else c) s = s"
  using assms by (intro map_idI) auto

lemma eml_file_name:
  assumes "set s \<inter> set invalidChars = {}"
  shows "sanitizeFilename (d @ js ''_'' @ s @ js ''.eml'') =
           take 180 (map (\<lambda>c. if c \<in> set invalidChars then underscore else c) d
                     @ js ''_'' @ s @ js ''.eml'')"
proof -
  have "map (\<lambda>c. if c \<in> set invalidChars then underscore else c) (js ''_'') = js ''_''"
    and "map (\<lambda>c. if c \<in> set invalidChars then underscore else c) (js ''.eml'') = js ''.eml''"
    by (simp_all add: js_def invalidChars_def dquote_def)
  with map_sanitized [OF assms] show ?thesis
    by (simp add: sanitizeFilename_def)
qed

lemma eml_file_name_fits:
  assumes "set s \<inter> set invalidChars = {}" and "length d + length s + 5 \<le> 180"
  shows "sanitizeFilename (d @ js ''_'' @ s @ js ''.eml'') =
           map (\<lambda>c. if c \<in> set invalidChars then underscore else c) d
             @ js ''_'' @ s @ js ''.eml''"
proof -
  have "length (js ''_'') = 1" "length (js ''.eml'') = 4"
    by (simp_all add: js_def)
  with assms(2) show ?thesis
    unfolding eml_file_name [OF assms(1)] by simp
qed

lemma attachments_directory:
  assumes "s \<noteq> []" and "s \<noteq> js ''.''" and "s \<noteq> js ''..''"
  shows "pathJoin p [js ''Attachments'', s] = p @ [js ''Attachments'', s]"
proof -
  have "js ''Attachments'' \<noteq> js ''.''" "js ''Attachments'' \<noteq> js ''..''"
    by (simp_all add: js_def)
  with assms show ?thesis
    by (simp add: pathJoin_def joinSegment_def)
qed

lemma exportAttachments_quiet:
  assumes "faulty w = (\<lambda>op. False)"
  shows "exportAttachments w ap atts st =
           st\<lparr>ops := ops st @ map (\<lambda>a. WriteFile (pathJoin ap [sanitizeFilename (filename a)])
                                      (Bytes (data a))) atts\<rparr>"
  using assms
  by (induction atts arbitrary: st) (simp_all add: writeFile_def perform_def)

lemma exportMessage_quiet:
  assumes "faulty w = (\<lambda>op. False)"
  shows "ops (exportMessage w emailsPath m st) =
           ops st
           @ [WriteFile
                (pathJoin emailsPath
                   [sanitizeFilename (formatDate (sentDate m) @ js ''_'' @ subject m @ js ''.eml'')])
                (Text (createEMLContent (random w (draws st)) (clock w (draws st)) m))]
           @ (if attachments m \<noteq> [] then
                Mkdir (pathJoin emailsPath [js ''Attachments'', sanitizeFilename (subject m)])
                # map (\<lambda>a. WriteFile
                             (pathJoin
                                (pathJoin emailsPath
                                   [js ''Attachments'', sanitizeFilename (subject m)])
                                [sanitizeFilename (filename a)])
                             (Bytes (data a))) (attachments m)
              else [])"
  using assms
  by (simp add: exportMessage_def Let_def writeFile_def mkdir_def perform_def
      exportAttachments_quiet)

text \<open>
  C10 as stated fails for the names of the exported files. For an item whose subject
  has 180 code units the record keeps the subject whole, but the name of the message
  file, cut to 180 code units after the date was put before it, holds only the first 155
  code units of the subject and has lost its extension \<open>.eml\<close>.
\<close>

theorem long_subject_cut_in_file_name:
  "extractFolder archive = Inr (FolderData (js ''Archive'') [longRecord] [] [] [])
   \<and> itemSubject longItem = Inr (replicate 180 0x53)
   \<and> subject longRecord = replicate 180 0x53
   \<and> exportToFiles quietWorld (FolderData (js ''Archive'') [longRecord] [] [] []) [js ''out''] fs0 =
       (Inr (),
        \<lparr>ops = [Mkdir [js ''out'', js ''Archive''],
                Mkdir [js ''out'', js ''Archive'', js ''Emails''],
                WriteFile [js ''out'', js ''Archive'', js ''Emails'',
                           js ''1970-01-01T00-00-00-000Z_'' @ replicate 155 0x53]
                  (Text (createEMLContent (js ''k3'') epoch longRecord))],
         draws = 1\<rparr>)"
proof -
  have s: "itemSubject longItem = Inr (replicate 180 0x53)"
    "subject longRecord = replicate 180 0x53"
    by (simp_all add: longItem_def longRecord_def)
  have d: "formatDate (sentDate longRecord) = js ''1970-01-01T00-00-00-000Z''"
    by (simp add: longRecord_def noteRecord_def formatDate_def epoch_def js_def)
  have i: "set (replicate 180 (0x53 :: code_unit)) \<inter> set invalidChars = {}"
    by (simp add: invalidChars_def dquote_def js_def)
  have m: "map (\<lambda>c. if c \<in> set invalidChars then underscore else c)
             (js ''1970-01-01T00-00-00-000Z'') = js ''1970-01-01T00-00-00-000Z''"
    by (simp add: invalidChars_def dquote_def js_def)
  have l: "length (js ''1970-01-01T00-00-00-000Z'') = 24" "length (js ''_'') = 1"
    by (simp_all add: js_def)
  have "sanitizeFilename
          (js ''1970-01-01T00-00-00-000Z'' @ js ''_'' @ replicate 180 0x53 @ js ''.eml'')
        = js ''1970-01-01T00-00-00-000Z'' @ js ''_'' @ replicate 155 0x53"
    unfolding eml_file_name [OF i] m by (simp add: l)
  moreover have "js ''1970-01-01T00-00-00-000Z'' @ js ''_'' = js ''1970-01-01T00-00-00-000Z_''"
    by (simp add: js_def)
  ultimately have n: "sanitizeFilename
          (formatDate (sentDate longRecord) @ js ''_'' @ subject longRecord @ js ''.eml'')
        = js ''1970-01-01T00-00-00-000Z_'' @ replicate 155 0x53"
    by (simp add: d s)
  have a: "sanitizeFilename (js ''Archive'') = js ''Archive''"
    by (simp add: sanitizeFilename_def invalidChars_def underscore_def dquote_def js_def)
  have j: "js ''Archive'' \<noteq> js ''.''" "js ''Archive'' \<noteq> js ''..''"
    "js ''Emails'' \<noteq> js ''.''" "js ''Emails'' \<noteq> js ''..''"
    "js ''1970-01-01T00-00-00-000Z_'' @ replicate 155 0x53 \<noteq> js ''.''"
    "js ''1970-01-01T00-00-00-000Z_'' @ replicate 155 0x53 \<noteq> js ''..''"
    by (simp_all add: js_def)
  have at: "attachments longRecord = []"
    by (simp add: longRecord_def noteRecord_def)
  have "exportToFiles quietWorld (FolderData (js ''Archive'') [longRecord] [] [] []) [js ''out''] fs0 =
       (Inr (),
        \<lparr>ops = [Mkdir [js ''out'', js ''Archive''],
                Mkdir [js ''out'', js ''Archive'', js ''Emails''],
                WriteFile [js ''out'', js ''Archive'', js ''Emails'',
                           js ''1970-01-01T00-00-00-000Z_'' @ replicate 155 0x53]
                  (Text (createEMLContent (js ''k3'') epoch longRecord))],
         draws = 1\<rparr>)"
    using j
    by (simp add: a n at thenDo_def mkdir_def writeFile_def perform_def quietWorld_def fs0_def
        exportMessage_def Let_def pathJoin_def joinSegment_def)
  with archive_extracted s show ?thesis
    by blast
qed

text \<open>
  C10, amended. When \<open>extractFolder\<close> pushes a record for a message item, the subject of
  the record is \<open>sanitizeFilename\<close> of the subject of the item, or of \<open>(No Subject)\<close> when
  the item has none; the subject of the item itself is not kept. So every message record
  of every aggregate that \<open>extractFolder\<close> returns has a subject that is not empty, holds
  none of the characters \<open>< > : " / \ | ? *\<close>, is at most 180 code units long and is left
  unchanged by \<open>sanitizeFilename\<close>. This string is the value of the \<open>Subject\<close> header, the
  third line of what \<open>createEMLContent\<close> writes. The name of the message file is the first
  180 code units of the sanitized date, \<open>_\<close>, the subject and \<open>.eml\<close>: it holds the
  subject whole, and the extension, when these fit into 180 code units. The directory of
  the attachments is \<open>Attachments\<close> and the subject below the directory of the messages,
  unless the subject is \<open>.\<close> or \<open>..\<close>, which \<open>path.join\<close> resolves. In a world without
  faults these are the names under which \<open>exportToFiles\<close> writes the message and its
  attachments.
\<close>

theorem message_subject_sanitized:
  "(processItem item cur folderData = Inr (Processed folderData')
      \<and> messages folderData' \<noteq> messages folderData \<longrightarrow>
      (\<exists>m raw. messages folderData' = messages folderData @ [m]
         \<and> itemSubject item = Inr raw
         \<and> subject m = sanitizeFilename (if raw = [] then js ''(No Subject)'' else raw)))
   \<and> (extractFolder f = Inr fd \<longrightarrow>
        list_all (\<lambda>m.
            subject m \<noteq> [] \<and> set (subject m) \<inter> set invalidChars = {}
          \<and> length (subject m) \<le> 180
          \<and> sanitizeFilename (subject m) = subject m
          \<and> emlHeaderLines token now m ! 2 = js ''Subject: '' @ subject m
          \<and> startsWith (createEMLContent token now m)
               (js ''From: '' @ sender m @ crlf
                @ js ''To: '' @ join (js '', '') (recipients m) @ crlf
                @ js ''Subject: '' @ subject m @ crlf)
          \<and> sanitizeFilename (formatDate (sentDate m) @ js ''_'' @ subject m @ js ''.eml'') =
              take 180 (map (\<lambda>c. if c \<in> set invalidChars then underscore else c)
                          (formatDate (sentDate m))
                        @ js ''_'' @ subject m @ js ''.eml'')
          \<and> (length (formatDate (sentDate m)) + length (subject m) + 5 \<le> 180 \<longrightarrow>
               sanitizeFilename (formatDate (sentDate m) @ js ''_'' @ subject m @ js ''.eml'') =
                 map (\<lambda>c. if c \<in> set invalidChars then underscore else c)
                   (formatDate (sentDate m))
                 @ js ''_'' @ subject m @ js ''.eml'')
          \<and> (subject m \<noteq> js ''.'' \<and> subject m \<noteq> js ''..'' \<longrightarrow>
               pathJoin emailsPath [js ''Attachments'', sanitizeFilename (subject m)] =
                 emailsPath @ [js ''Attachments'', subject m])
          \<and> (faulty w = (\<lambda>op. False) \<longrightarrow>
               ops (exportMessage w emailsPath m st) =
                 ops st
                 @ [WriteFile
                      (pathJoin emailsPath
                         [take 180 (map (\<lambda>c. if c \<in> set invalidChars then underscore else c)
                                      (formatDate (sentDate m))
                                    @ js ''_'' @ subject m @ js ''.eml'')])
                      (Text (createEMLContent (random w (draws st)) (clock w (draws st)) m))]
                 @ (if attachments m \<noteq> [] then
                      Mkdir (pathJoin emailsPath [js ''Attachments'', subject m])
                      # map (\<lambda>a. WriteFile
                                   (pathJoin (pathJoin emailsPath [js ''Attachments'', subject m])
                                      [sanitizeFilename (filename a)])
                                   (Bytes (data a))) (attachments m)
                    else [])))
          (allMessages fd))"
proof (intro conjI impI)
  assume "processItem item cur folderData = Inr (Processed folderData')
      \<and> messages folderData' \<noteq> messages folderData"
  then show "\<exists>m raw. messages folderData' = messages folderData @ [m]
         \<and> itemSubject item = Inr raw
         \<and> subject m = sanitizeFilename (if raw = [] then js ''(No Subject)'' else raw)"
    using processItem_subject [of item cur folderData folderData'] by blast
next
  assume e: "extractFolder f = Inr fd"
  show "list_all (\<lambda>m.
            subject m \<noteq> [] \<and> set (subject m) \<inter> set invalidChars = {}
          \<and> length (subject m) \<le> 180
          \<and> sanitizeFilename (subject m) = subject m
          \<and> emlHeaderLines token now m ! 2 = js ''Subject: '' @ subject m
          \<and> startsWith (createEMLContent token now m)
               (js ''From: '' @ sender m @ crlf
                @ js ''To: '' @ join (js '', '') (recipients m) @ crlf
                @ js ''Subject: '' @ subject m @ crlf)
          \<and> sanitizeFilename (formatDate (sentDate m) @ js ''_'' @ subject m @ js ''.eml'') =
              take 180 (map (\<lambda>c. if c \<in> set invalidChars then underscore else c)
                          (formatDate (sentDate m))
                        @ js ''_'' @ subject m @ js ''.eml'')
          \<and> (length (formatDate (sentDate m)) + length (subject m) + 5 \<le> 180 \<longrightarrow>
               sanitizeFilename (formatDate (sentDate m) @ js ''_'' @ subject m @ js ''.eml'') =
                 map (\<lambda>c. if c \<in> set invalidChars then underscore else c)
                   (formatDate (sentDate m))
                 @ js ''_'' @ subject m @ js ''.eml'')
          \<and> (subject m \<noteq> js ''.'' \<and> subject m \<noteq> js ''..'' \<longrightarrow>
               pathJoin emailsPath [js ''Attachments'', sanitizeFilename (subject m)] =
                 emailsPath @ [js ''Attachments'', subject m])
          \<and> (faulty w = (\<lambda>op. False) \<longrightarrow>
               ops (exportMessage w emailsPath m st) =
                 ops st
                 @ [WriteFile
                      (pathJoin emailsPath
                         [take 180 (map (\<lambda>c. if c \<in> set invalidChars then underscore else c)
                                      (formatDate (sentDate m))
                                    @ js ''_'' @ subject m @ js ''.eml'')])
                      (Text (createEMLContent (random w (draws st)) (clock w (draws st)) m))]
                 @ (if attachments m \<noteq> [] then
                      Mkdir (pathJoin emailsPath [js ''Attachments'', subject m])
                      # map (\<lambda>a. WriteFile
                                   (pathJoin (pathJoin emailsPath [js ''Attachments'', subject m])
                                      [sanitizeFilename (filename a)])
                                   (Bytes (data a))) (attachments m)
                    else [])))
          (allMessages fd)"
    unfolding list_all_iff
  proof
    fix m
    assume "m \<in> set (allMessages fd)"
    with extractFolder_subjects_OK [OF e] have
      ne: "subject m \<noteq> []" and v: "set (subject m) \<inter> set invalidChars = {}"
      and l: "length (subject m) \<le> 180" and i: "sanitizeFilename (subject m) = subject m"
      by (simp_all add: list_all_iff)
    have x: "faulty w = (\<lambda>op. False) \<longrightarrow>
               ops (exportMessage w emailsPath m st) =
                 ops st
                 @ [WriteFile
                      (pathJoin emailsPath
                         [take 180 (map (\<lambda>c. if c \<in> set invalidChars then underscore else c)
                                      (formatDate (sentDate m))
                                    @ js ''_'' @ subject m @ js ''.eml'')])
                      (Text (createEMLContent (random w (draws st)) (clock w (draws st)) m))]
                 @ (if attachments m \<noteq> [] then
                      Mkdir (pathJoin emailsPath [js ''Attachments'', subject m])
                      # map (\<lambda>a. WriteFile
                                   (pathJoin (pathJoin emailsPath [js ''Attachments'', subject m])
                                      [sanitizeFilename (filename a)])
                                   (Bytes (data a))) (attachments m)
                    else [])"
      using exportMessage_quiet [of w emailsPath m st]
      unfolding i eml_file_name [OF v] by blast
    have d: "subject m \<noteq> js ''.'' \<and> subject m \<noteq> js ''..'' \<longrightarrow>
               pathJoin emailsPath [js ''Attachments'', sanitizeFilename (subject m)] =
                 emailsPath @ [js ''Attachments'', subject m]"
      unfolding i using attachments_directory [OF ne, of emailsPath] by blast
    have ft: "length (formatDate (sentDate m)) + length (subject m) + 5 \<le> 180 \<longrightarrow>
               sanitizeFilename (formatDate (sentDate m) @ js ''_'' @ subject m @ js ''.eml'') =
                 map (\<lambda>c. if c \<in> set invalidChars then underscore else c)
                   (formatDate (sentDate m))
                 @ js ''_'' @ subject m @ js ''.eml''"
      using eml_file_name_fits [OF v] by blast
    from ne v l i x d ft
    show "subject m \<noteq> [] \<and> set (subject m) \<inter> set invalidChars = {}
          \<and> length (subject m) \<le> 180
          \<and> sanitizeFilename (subject m) = subject m
          \<and> emlHeaderLines token now m ! 2 = js ''Subject: '' @ subject m
          \<and> startsWith (createEMLContent token now m)
               (js ''From: '' @ sender m @ crlf
                @ js ''To: '' @ join (js '', '') (recipients m) @ crlf
                @ js ''Subject: '' @ subject m @ crlf)
          \<and> sanitizeFilename (formatDate (sentDate m) @ js ''_'' @ subject m @ js ''.eml'') =
              take 180 (map (\<lambda>c. if c \<in> set invalidChars then underscore else c)
                          (formatDate (sentDate m))
                        @ js ''_'' @ subject m @ js ''.eml'')
          \<and> (length (formatDate (sentDate m)) + length (subject m) + 5 \<le> 180 \<longrightarrow>
               sanitizeFilename (formatDate (sentDate m) @ js ''_'' @ subject m @ js ''.eml'') =
                 map (\<lambda>c. if c \<in> set invalidChars then underscore else c)
                   (formatDate (sentDate m))
                 @ js ''_'' @ subject m @ js ''.eml'')
          \<and> (subject m \<noteq> js ''.'' \<and> subject m \<noteq> js ''..'' \<longrightarrow>
               pathJoin emailsPath [js ''Attachments'', sanitizeFilename (subject m)] =
                 emailsPath @ [js ''Attachments'', subject m])
          \<and> (faulty w = (\<lambda>op. False) \<longrightarrow>
               ops (exportMessage w emailsPath m st) =
                 ops st
                 @ [WriteFile
                      (pathJoin emailsPath
                         [take 180 (map (\<lambda>c. if c \<in> set invalidChars then underscore else c)
                                      (formatDate (sentDate m))
                                    @ js ''_'' @ subject m @ js ''.eml'')])
                      (Text (createEMLContent (random w (draws st)) (clock w (draws st)) m))]
                 @ (if attachments m \<noteq> [] then
                      Mkdir (pathJoin emailsPath [js ''Attachments'', subject m])
                      # map (\<lambda>a. WriteFile
                                   (pathJoin (pathJoin emailsPath [js ''Attachments'', subject m])
                                      [sanitizeFilename (filename a)])
                                   (Bytes (data a))) (attachments m)
                    else []))"
      using subject_header [of token now m] subject_serialized [of token now m]
        eml_file_name [OF v, of "formatDate (sentDate m)"]
      by (intro conjI)
  qed
qed

lemma sample_strings:
  "js ''Attachments'' \<noteq> js ''.''" "js ''Attachments'' \<noteq> js ''..''"
  "js ''Re_ a_b'' \<noteq> []" "js ''Re_ a_b'' \<noteq> js ''.''" "js ''Re_ a_b'' \<noteq> js ''..''"
  "js ''notes_a.txt'' \<noteq> []" "js ''notes_a.txt'' \<noteq> js ''.''" "js ''notes_a.txt'' \<noteq> js ''..''"
  "js ''1970-01-01T00-00-00-000Z_Re_ a_b.eml'' \<noteq> []"
  "js ''1970-01-01T00-00-00-000Z_Re_ a_b.eml'' \<noteq> js ''.''"
  "js ''1970-01-01T00-00-00-000Z_Re_ a_b.eml'' \<noteq> js ''..''"
  by (simp_all add: js_def)

lemma mailRecord_fields:
  "subject mailRecord = js ''Re_ a_b''"
  "formatDate (sentDate mailRecord) = js ''1970-01-01T00-00-00-000Z''"
  "attachments mailRecord =
     [\<lparr>filename = js ''notes_a.txt'', data = [1, 2],
       contentType = Some (js ''application/octet-stream'')\<rparr>]"
  "length (js ''1970-01-01T00-00-00-000Z'') + length (js ''Re_ a_b'') + 5 \<le> 180"
  "map (\<lambda>c. if c \<in> set invalidChars then underscore else c) (js ''1970-01-01T00-00-00-000Z'')
     @ js ''_'' @ js ''Re_ a_b'' @ js ''.eml'' = js ''1970-01-01T00-00-00-000Z_Re_ a_b.eml''"
  "sanitizeFilename (js ''notes_a.txt'') = js ''notes_a.txt''"
  "js ''Subject: '' @ js ''Re_ a_b'' = js ''Subject: Re_ a_b''"
  by (simp_all add: mailRecord_def noteRecord_def formatDate_def epoch_def js_def
      invalidChars_def dquote_def underscore_def sanitizeFilename_def)

theorem message_subject_sanitized_witness:
  "processItem untitledItem [] emptyFolder =
     Inr (Processed (pushMessage untitledRecord emptyFolder))
   \<and> messages (pushMessage untitledRecord emptyFolder) = messages emptyFolder @ [untitledRecord]
   \<and> itemSubject untitledItem = Inr []
   \<and> subject untitledRecord = sanitizeFilename (js ''(No Subject)'')
   \<and> subject untitledRecord = js ''(No Subject)''
   \<and> extractFolder drafts =
       Inr (FolderData (js ''Drafts'') [untitledRecord, mailRecord] [] [] [])
   \<and> itemSubject mailItem = Inr (js ''Re: a/b'')
   \<and> subject mailRecord = js ''Re_ a_b''
   \<and> emlHeaderLines (js ''k3'') epoch mailRecord ! 2 = js ''Subject: Re_ a_b''
   \<and> sanitizeFilename
        (formatDate (sentDate mailRecord) @ js ''_'' @ subject mailRecord @ js ''.eml'') =
       js ''1970-01-01T00-00-00-000Z_Re_ a_b.eml''
   \<and> pathJoin [js ''out'', js ''Drafts'', js ''Emails'']
        [js ''Attachments'', sanitizeFilename (subject mailRecord)] =
       [js ''out'', js ''Drafts'', js ''Emails'', js ''Attachments'', js ''Re_ a_b'']
   \<and> ops (exportMessage quietWorld [js ''out'', js ''Drafts'', js ''Emails''] mailRecord fs0) =
       [WriteFile [js ''out'', js ''Drafts'', js ''Emails'',
                   js ''1970-01-01T00-00-00-000Z_Re_ a_b.eml'']
          (Text (createEMLContent (js ''k3'') epoch mailRecord)),
        Mkdir [js ''out'', js ''Drafts'', js ''Emails'', js ''Attachments'', js ''Re_ a_b''],
        WriteFile [js ''out'', js ''Drafts'', js ''Emails'', js ''Attachments'', js ''Re_ a_b'',
                   js ''notes_a.txt'']
          (Bytes [1, 2])]"
proof -
  have p: "processItem untitledItem [] emptyFolder =
     Inr (Processed (pushMessage untitledRecord emptyFolder))"
    by (rule untitledItem_processed)
  have a: "messages (pushMessage untitledRecord emptyFolder) = messages emptyFolder @ [untitledRecord]"
    by (simp add: pushMessage_def)
  have r: "itemSubject untitledItem = Inr []" "itemSubject mailItem = Inr (js ''Re: a/b'')"
    by (simp_all add: untitledItem_def mailItem_def noteItem_def)
  have u: "subject untitledRecord = sanitizeFilename (js ''(No Subject)'')"
    using p a r(1)
      message_subject_sanitized [of untitledItem "[]" emptyFolder
        "pushMessage untitledRecord emptyFolder", THEN conjunct1]
    by auto
  have u': "subject untitledRecord = js ''(No Subject)''"
    by (simp add: untitledRecord_def)
  have q: "faulty quietWorld = (\<lambda>op. False)" "random quietWorld 0 = js ''k3''"
    "clock quietWorld 0 = epoch" "draws fs0 = 0" "ops fs0 = []"
    by (simp_all add: quietWorld_def fs0_def)
  note t = message_subject_sanitized [of _ _ _ _ drafts
      "FolderData (js ''Drafts'') [untitledRecord, mailRecord] [] [] []" "js ''k3''" epoch
      "[js ''out'', js ''Drafts'', js ''Emails'']" quietWorld fs0, THEN conjunct2, THEN mp,
      OF drafts_extracted]
  have t': "list_all (\<lambda>m.
          emlHeaderLines (js ''k3'') epoch m ! 2 = js ''Subject: '' @ subject m
          \<and> (length (formatDate (sentDate m)) + length (subject m) + 5 \<le> 180 \<longrightarrow>
               sanitizeFilename (formatDate (sentDate m) @ js ''_'' @ subject m @ js ''.eml'') =
                 map (\<lambda>c. if c \<in> set invalidChars then underscore else c)
                   (formatDate (sentDate m))
                 @ js ''_'' @ subject m @ js ''.eml'')
          \<and> (subject m \<noteq> js ''.'' \<and> subject m \<noteq> js ''..'' \<longrightarrow>
               pathJoin [js ''out'', js ''Drafts'', js ''Emails'']
                 [js ''Attachments'', sanitizeFilename (subject m)] =
                 [js ''out'', js ''Drafts'', js ''Emails''] @ [js ''Attachments'', subject m])
          \<and> (faulty quietWorld = (\<lambda>op. False) \<longrightarrow>
               ops (exportMessage quietWorld [js ''out'', js ''Drafts'', js ''Emails''] m fs0) =
                 ops fs0
                 @ [WriteFile
                      (pathJoin [js ''out'', js ''Drafts'', js ''Emails'']
                         [take 180 (map (\<lambda>c. if c \<in> set invalidChars then underscore else c)
                                      (formatDate (sentDate m))
                                    @ js ''_'' @ subject m @ js ''.eml'')])
                      (Text (createEMLContent (random quietWorld (draws fs0))
                               (clock quietWorld (draws fs0)) m))]
                 @ (if attachments m \<noteq> [] then
                      Mkdir (pathJoin [js ''out'', js ''Drafts'', js ''Emails'']
                               [js ''Attachments'', subject m])
                      # map (\<lambda>a. WriteFile
                                   (pathJoin (pathJoin [js ''out'', js ''Drafts'', js ''Emails'']
                                                [js ''Attachments'', subject m])
                                      [sanitizeFilename (filename a)])
                                   (Bytes (data a))) (attachments m)
                    else [])))
          [untitledRecord, mailRecord]"
    using t by (simp only: allMessages.simps list.map concat.simps append_Nil2 list_all_iff)
      blast
  note m = t' [unfolded list.pred_inject, THEN conjunct2, THEN conjunct1]
  have h: "emlHeaderLines (js ''k3'') epoch mailRecord ! 2 = js ''Subject: Re_ a_b''"
    using m [THEN conjunct1] by (simp add: mailRecord_fields)
  have n: "sanitizeFilename
        (formatDate (sentDate mailRecord) @ js ''_'' @ subject mailRecord @ js ''.eml'') =
       js ''1970-01-01T00-00-00-000Z_Re_ a_b.eml''"
    using m [THEN conjunct2, THEN conjunct1] mailRecord_fields(4)
    unfolding mailRecord_fields(1,2) mailRecord_fields(5) by blast
  have d: "pathJoin [js ''out'', js ''Drafts'', js ''Emails'']
        [js ''Attachments'', sanitizeFilename (subject mailRecord)] =
       [js ''out'', js ''Drafts'', js ''Emails'', js ''Attachments'', js ''Re_ a_b'']"
    using m [THEN conjunct2, THEN conjunct2, THEN conjunct1] sample_strings(4,5)
    unfolding mailRecord_fields(1) by simp
  have f: "take 180 (js ''1970-01-01T00-00-00-000Z_Re_ a_b.eml'') =
      js ''1970-01-01T00-00-00-000Z_Re_ a_b.eml''"
    by (simp add: js_def)
  have j: "pathJoin [js ''out'', js ''Drafts'', js ''Emails'']
             [js ''1970-01-01T00-00-00-000Z_Re_ a_b.eml''] =
           [js ''out'', js ''Drafts'', js ''Emails'', js ''1970-01-01T00-00-00-000Z_Re_ a_b.eml'']"
    "pathJoin [js ''out'', js ''Drafts'', js ''Emails''] [js ''Attachments'', js ''Re_ a_b''] =
           [js ''out'', js ''Drafts'', js ''Emails'', js ''Attachments'', js ''Re_ a_b'']"
    "pathJoin [js ''out'', js ''Drafts'', js ''Emails'', js ''Attachments'', js ''Re_ a_b'']
             [js ''notes_a.txt''] =
           [js ''out'', js ''Drafts'', js ''Emails'', js ''Attachments'', js ''Re_ a_b'',
            js ''notes_a.txt'']"
    using sample_strings by (simp_all add: pathJoin_def joinSegment_def)
  have x: "ops (exportMessage quietWorld [js ''out'', js ''Drafts'', js ''Emails''] mailRecord fs0) =
       [WriteFile [js ''out'', js ''Drafts'', js ''Emails'',
                   js ''1970-01-01T00-00-00-000Z_Re_ a_b.eml'']
          (Text (createEMLContent (js ''k3'') epoch mailRecord)),
        Mkdir [js ''out'', js ''Drafts'', js ''Emails'', js ''Attachments'', js ''Re_ a_b''],
        WriteFile [js ''out'', js ''Drafts'', js ''Emails'', js ''Attachments'', js ''Re_ a_b'',
                   js ''notes_a.txt'']
          (Bytes [1, 2])]"
    using m [THEN conjunct2, THEN conjunct2, THEN conjunct2, THEN mp, OF q(1)]
    unfolding mailRecord_fields(1,2,3) mailRecord_fields(5) f j(1,2) q(2-5)
    by (simp add: mailRecord_fields(6) j(3))
  from p a r u u' drafts_extracted mailRecord_fields(1) h n d x show ?thesis
    by blast
qed

subsection \<open>Walker: pruning of empty subfolders\<close>

lemma subfolderLoop_eq:
  "subfolderLoop cs acc =
     acc @ filter nonEmpty
             (concat (map (\<lambda>c. case extractFolder c of Inl e \<Rightarrow> [] | Inr d \<Rightarrow> [d]) cs))"
  by (induction cs arbitrary: acc) (auto split: sum.splits)

lemma extractFolder_subfolders:
  assumes "extractFolder f = Inr fd"
  shows "subfolders fd =
           (if hasSubfolders f = Inr True \<and> \<not> subFoldersFail f
            then filter nonEmpty
                   (concat (map (\<lambda>c. case extractFolder c of Inl e \<Rightarrow> [] | Inr d \<Rightarrow> [d])
                      (subFolderList f)))
            else [])"
proof -
  from extractFolder_Inr [OF assms] obtain hs where
    "hasSubfolders f = Inr hs"
    "subfolders fd = (if hs \<and> \<not> subFoldersFail f then subfolderLoop (subFolderList f) [] else [])"
    by metis
  then show ?thesis
    by (simp add: subfolderLoop_eq)
qed

lemma extractFolder_pruned:
  shows "(\<forall>fd. extractFolder f = Inr fd \<longrightarrow> list_all nonEmpty (allSubfolders fd))"
    and "(list_all (\<lambda>d. nonEmpty d \<and> list_all nonEmpty (allSubfolders d)) acc \<longrightarrow>
           list_all (\<lambda>d. nonEmpty d \<and> list_all nonEmpty (allSubfolders d)) (subfolderLoop cs acc))"
proof (induction f and cs acc rule: extractFolder_subfolderLoop.induct)
  case (1 dn cnt hasSub cur subFail subs)
  show ?case
  proof (intro allI impI)
    fix fd
    assume e: "extractFolder (PSTFolder dn cnt hasSub cur subFail subs) = Inr fd"
    from extractFolder_Inr [OF e] obtain hs where
      s: "subfolders fd = (if hs \<and> \<not> subFail then subfolderLoop subs [] else [])"
      unfolding PSTFolder.sel by metis
    have "list_all (\<lambda>d. nonEmpty d \<and> list_all nonEmpty (allSubfolders d)) (subfolders fd)"
    proof (cases "hs \<and> \<not> subFail")
      case True
      then have "list_all (\<lambda>d. nonEmpty d \<and> list_all nonEmpty (allSubfolders d))
                   (subfolderLoop subs [])"
        using "1.IH" [OF refl] by simp
      with True s show ?thesis by simp
    next
      case False
      with s show ?thesis by simp
    qed
    then show "list_all nonEmpty (allSubfolders fd)"
      by (subst allSubfolders_eq) (auto simp: list_all_iff)
  qed
next
  case (2 acc)
  then show ?case by simp
next
  case (3 childFolder rest acc)
  then show ?case
    by (auto split: sum.splits)
qed

text \<open>
  C1. The subfolders of the aggregate that \<open>extractFolder\<close> returns are, in order, the
  aggregates of the child folders it recursed into that have a message, a contact, an
  appointment or a subfolder of their own: a recursed-into aggregate is appended if and
  only if it is not empty. So no aggregate at any depth below the result is empty.
\<close>

theorem empty_subfolders_pruned:
  assumes "extractFolder f = Inr fd"
  shows "subfolders fd =
           (if hasSubfolders f = Inr True \<and> \<not> subFoldersFail f
            then filter nonEmpty
                   (concat (map (\<lambda>c. case extractFolder c of Inl e \<Rightarrow> [] | Inr d \<Rightarrow> [d])
                      (subFolderList f)))
            else [])
         \<and> list_all nonEmpty (allSubfolders fd)"
  using extractFolder_subfolders [OF assms] extractFolder_pruned(1) [of f] assms by blast

theorem empty_subfolders_pruned_witness:
  "extractFolder inbox =
     Inr (FolderData (js ''Inbox'') [noteRecord] [] []
            [FolderData (js ''Sub'') [noteRecord] [] [] []])
   \<and> map displayName (subFolderList inbox) = [Inr (js ''Empty''), Inr (js ''Sub'')]
   \<and> extractFolder (PSTFolder (Inr (js ''Empty'')) (Inr 0) (Inr False) [] False []) =
       Inr (FolderData (js ''Empty'') [] [] [] [])
   \<and> list_all nonEmpty
        (allSubfolders (FolderData (js ''Inbox'') [noteRecord] [] []
            [FolderData (js ''Sub'') [noteRecord] [] [] []]))"
proof -
  have "map displayName (subFolderList inbox) = [Inr (js ''Empty''), Inr (js ''Sub'')]"
    by (simp add: inbox_def)
  with empty_subfolders_pruned [OF inbox_extracted] inbox_extracted empty_extracted
  show ?thesis
    by blast
qed

subsection \<open>Walker: absorbed faults\<close>

lemma advance_eq:
  "advance cur = (case cur of NextItem nxt # cur' \<Rightarrow> Some (nxt, cur') | _ \<Rightarrow> None)"
  by (cases cur rule: getNextChild.cases) (simp_all add: advance_def)

lemma processItem_cur:
  "processItem item cur fd =
     (case processItem item [] fd of
        Inl e \<Rightarrow> Inl e
      | Inr (Processed fd') \<Rightarrow> Inr (Processed fd')
      | Inr other \<Rightarrow>
          (case getNextChild cur of
             (Inl nextError, cur') \<Rightarrow> Inr Break
           | (Inr nxt, cur') \<Rightarrow> Inr (Continue nxt cur')))"
  by (simp add: processItem_def andThen_def split: sum.splits)

lemma itemResult_cur:
  "itemResult item fd =
     (case processItem item cur fd of
        Inl itemError \<Rightarrow> fd
      | Inr (Processed fd') \<Rightarrow> fd'
      | Inr other \<Rightarrow> fd)"
  by (subst processItem_cur)
    (simp add: itemResult_def split: sum.splits item_outcome.splits prod.splits)

lemma loopTurn_eq: "loopTurn item cur fd = (itemResult item fd, advance cur)"
  unfolding loopTurn_def itemResult_def
  by (subst processItem_cur)
    (simp add: advance_def split: sum.splits item_outcome.splits prod.splits option.splits)

lemma contentLoop_eq:
  "contentLoop item cur fd = foldl (\<lambda>fd it. itemResult it fd) fd (item # reachableItems cur)"
proof (induction cur arbitrary: item fd)
  case Nil
  show ?case
    by (subst contentLoop.simps) (simp add: loopTurn_eq advance_eq)
next
  case (Cons ev cur)
  show ?case
  proof (cases ev)
    case (NextItem nxt)
    then show ?thesis
      by (subst contentLoop.simps) (simp add: loopTurn_eq advance_eq Cons.IH)
  next
    case NextFails
    then show ?thesis
      by (subst contentLoop.simps) (simp add: loopTurn_eq advance_eq)
  qed
qed

lemma enumerateContent_eq:
  "enumerateContent cnt cur fd =
     (if 0 < cnt then foldl (\<lambda>fd it. itemResult it fd) fd (reachableItems cur) else fd)"
  by (cases cur rule: getNextChild.cases) (simp_all add: enumerateContent_def contentLoop_eq)

lemma extractFolder_raises:
  "(\<exists>e. extractFolder f = Inl e) =
     (\<exists>e. displayName f = Inl e \<or> contentCount f = Inl e \<or> hasSubfolders f = Inl e)"
  by (subst extractFolder_eq) (auto simp: andThen_def split: sum.splits)

lemma extractFolder_collected:
  assumes "displayName f = Inr dn" and "contentCount f = Inr cnt" and "hasSubfolders f = Inr hs"
  shows "extractFolder f =
          (let folderData0 = FolderData (orElse dn (js ''Unnamed Folder'')) [] [] [] [];
               collected =
                 (if 0 < cnt
                  then foldl (\<lambda>folderData it. itemResult it folderData) folderData0
                         (reachableItems (children f))
                  else folderData0)
           in Inr (FolderData (orElse dn (js ''Unnamed Folder''))
                     (messages collected) (contacts collected) (appointments collected)
                     (if hs \<and> \<not> subFoldersFail f
                      then filter nonEmpty
                             (concat (map (\<lambda>c. case extractFolder c of
                                                  Inl subfolderError \<Rightarrow> []
                                                | Inr d \<Rightarrow> [d])
                                        (subFolderList f)))
                      else [])))"
  by (subst extractFolder_eq)
    (simp add: assms andThen_def enumerateContent_eq subfolderLoop_eq Let_def)

text \<open>
  C2 as stated fails: \<open>extractFolder\<close> reads the name, the item count and the subfolder
  flag of the handle outside every \<open>try\<close>, and raises when one of these reads raises.
\<close>

theorem extractFolder_raises_on_folder_property:
  "extractFolder (PSTFolder (Inl ReaderError) (Inr 0) (Inr False) [] False []) = Inl ReaderError
   \<and> extractFolder (PSTFolder (Inr (js ''Inbox'')) (Inl ReaderError) (Inr False) [] False [])
       = Inl ReaderError
   \<and> extractFolder (PSTFolder (Inr (js ''Inbox'')) (Inr 0) (Inl ReaderError) [] False [])
       = Inl ReaderError"
  by (simp add: andThen_def Let_def)

text \<open>
  C2, amended. \<open>extractFolder\<close> raises exactly when reading the name, the item count or
  the subfolder flag of the handle itself raises. For a handle where these three reads
  succeed it returns an aggregate, and every other fault is absorbed. The records are
  those of the items that the cursor delivers before it ends or raises, each item adding
  what its processing pushes: an item whose processing raises, or whose type is unknown,
  leaves the aggregate as it is and the next item is processed; when advancing the cursor
  raises, the enumeration of the folder ends with what was collected. When listing the
  subfolders raises, the aggregate has no subfolders. Otherwise each child folder is
  extracted on its own: a child whose extraction raises is left out, and its siblings
  are extracted all the same.
\<close>

theorem extractFolder_absorbs_faults:
  "(displayName f = Inr dn \<and> contentCount f = Inr cnt \<and> hasSubfolders f = Inr hs \<longrightarrow>
      extractFolder f =
        (let folderData0 = FolderData (orElse dn (js ''Unnamed Folder'')) [] [] [] [];
             collected =
               (if 0 < cnt
                then foldl (\<lambda>folderData it. itemResult it folderData) folderData0
                       (reachableItems (children f))
                else folderData0)
         in Inr (FolderData (orElse dn (js ''Unnamed Folder''))
                   (messages collected) (contacts collected) (appointments collected)
                   (if hs \<and> \<not> subFoldersFail f
                    then filter nonEmpty
                           (concat (map (\<lambda>c. case extractFolder c of
                                                Inl subfolderError \<Rightarrow> []
                                              | Inr d \<Rightarrow> [d])
                                      (subFolderList f)))
                    else []))))
   \<and> ((\<exists>e. extractFolder f = Inl e) =
        (\<exists>e. displayName f = Inl e \<or> contentCount f = Inl e \<or> hasSubfolders f = Inl e))
   \<and> itemResult item folderData =
       (case processItem item cur folderData of
          Inl itemError \<Rightarrow> folderData
        | Inr (Processed folderData') \<Rightarrow> folderData'
        | Inr other \<Rightarrow> folderData)"
proof (intro conjI impI)
  assume "displayName f = Inr dn \<and> contentCount f = Inr cnt \<and> hasSubfolders f = Inr hs"
  then show "extractFolder f =
        (let folderData0 = FolderData (orElse dn (js ''Unnamed Folder'')) [] [] [] [];
             collected =
               (if 0 < cnt
                then foldl (\<lambda>folderData it. itemResult it folderData) folderData0
                       (reachableItems (children f))
                else folderData0)
         in Inr (FolderData (orElse dn (js ''Unnamed Folder''))
                   (messages collected) (contacts collected) (appointments collected)
                   (if hs \<and> \<not> subFoldersFail f
                    then filter nonEmpty
                           (concat (map (\<lambda>c. case extractFolder c of
                                                Inl subfolderError \<Rightarrow> []
                                              | Inr d \<Rightarrow> [d])
                                      (subFolderList f)))
                    else [])))"
    using extractFolder_collected [of f dn cnt hs] by blast
next
  show "(\<exists>e. extractFolder f = Inl e) =
        (\<exists>e. displayName f = Inl e \<or> contentCount f = Inl e \<or> hasSubfolders f = Inl e)"
    by (rule extractFolder_raises)
next
  show "itemResult item folderData =
       (case processItem item cur folderData of
          Inl itemError \<Rightarrow> folderData
        | Inr (Processed folderData') \<Rightarrow> folderData'
        | Inr other \<Rightarrow> folderData)"
    by (rule itemResult_cur)
qed

theorem extractFolder_absorbs_faults_witness:
  "displayName faultyInbox = Inr (js ''Inbox'')
   \<and> contentCount faultyInbox = Inr 4
   \<and> hasSubfolders faultyInbox = Inr True
   \<and> children faultyInbox =
       [NextItem brokenItem, NextItem noteItem, NextFails, NextItem noteItem]
   \<and> reachableItems (children faultyInbox) = [brokenItem, noteItem]
   \<and> processItem brokenItem [] emptyFolder = Inl ReaderError
   \<and> itemResult brokenItem emptyFolder = emptyFolder
   \<and> itemResult noteItem emptyFolder = pushMessage noteRecord emptyFolder
   \<and> subFolderList faultyInbox =
       [brokenFolder,
        PSTFolder (Inr (js ''Sub'')) (Inr 1) (Inr False) [NextItem noteItem] False []]
   \<and> displayName brokenFolder = Inl ReaderError
   \<and> extractFolder brokenFolder = Inl ReaderError
   \<and> extractFolder faultyInbox =
       Inr (FolderData (js ''Inbox'') [noteRecord] [] []
              [FolderData (js ''Sub'') [noteRecord] [] [] []])
   \<and> extractFolder (PSTFolder (Inr (js ''Inbox'')) (Inr 0) (Inr True) [] True [inbox]) =
       Inr (FolderData (js ''Inbox'') [] [] [] [])"
proof -
  have g: "displayName faultyInbox = Inr (js ''Inbox'')" "contentCount faultyInbox = Inr 4"
    "hasSubfolders faultyInbox = Inr True"
    and c: "children faultyInbox =
       [NextItem brokenItem, NextItem noteItem, NextFails, NextItem noteItem]"
    and l: "subFolderList faultyInbox =
       [brokenFolder,
        PSTFolder (Inr (js ''Sub'')) (Inr 1) (Inr False) [NextItem noteItem] False []]"
    and nf: "\<not> subFoldersFail faultyInbox"
    by (simp_all add: faultyInbox_def)
  have r: "reachableItems (children faultyInbox) = [brokenItem, noteItem]"
    by (simp add: c)
  have b: "itemResult brokenItem fd = fd" for fd
    using extractFolder_absorbs_faults [of _ _ _ _ brokenItem fd "[]",
        THEN conjunct2, THEN conjunct2]
    by (simp add: brokenItem_raises)
  have n: "itemResult noteItem fd = pushMessage noteRecord fd" for fd
    using extractFolder_absorbs_faults [of _ _ _ _ noteItem fd "[]",
        THEN conjunct2, THEN conjunct2]
    by (simp add: noteItem_processed noteRecord_def)
  have d: "displayName brokenFolder = Inl ReaderError"
    by (simp add: brokenFolder_def)
  then have "\<exists>e. extractFolder brokenFolder = Inl e"
    using extractFolder_absorbs_faults [of brokenFolder, THEN conjunct2, THEN conjunct1]
    by blast
  then have x: "(case extractFolder brokenFolder of Inl subfolderError \<Rightarrow> [] | Inr d \<Rightarrow> [d]) = []"
    by auto
  have o: "orElse (js ''Inbox'') (js ''Unnamed Folder'') = js ''Inbox''"
    by (simp add: orElse_def)
  have f: "extractFolder faultyInbox =
       Inr (FolderData (js ''Inbox'') [noteRecord] [] []
              [FolderData (js ''Sub'') [noteRecord] [] [] []])"
    using extractFolder_absorbs_faults [of faultyInbox "js ''Inbox''" 4 True, THEN conjunct1] g
    by (simp add: Let_def r b n l nf x o sub_extracted pushMessage_def nonEmpty_def
        del: extractFolder.simps)
  have s: "extractFolder (PSTFolder (Inr (js ''Inbox'')) (Inr 0) (Inr True) [] True [inbox]) =
       Inr (FolderData (js ''Inbox'') [] [] [] [])"
    using extractFolder_absorbs_faults
      [of "PSTFolder (Inr (js ''Inbox'')) (Inr 0) (Inr True) [] True [inbox]"
        "js ''Inbox''" 0 True, THEN conjunct1]
    by (simp add: o)
  from g c r brokenItem_raises [of "[]" emptyFolder] b [of emptyFolder] n [of emptyFolder]
    l d brokenFolder_raises f s
  show ?thesis
    by blast
qed

subsection \<open>Exporter: a write that fails\<close>

lemma sanitized_names:
  "sanitizeFilename (js ''Contacts'') = js ''Contacts''"
  "sanitizeFilename (js ''Inbox'') = js ''Inbox''"
  "sanitizeFilename (fullName jane @ js ''.vcf'') = js ''Jane Doe.vcf''"
  "sanitizeFilename (fullName john @ js ''.vcf'') = js ''John Roe.vcf''"
  "sanitizeFilename (formatDate (sentDate noteRecord) @ js ''_'' @ subject noteRecord @ js ''.eml'')
     = js ''1970-01-01T00-00-00-000Z_Re_ a_b.eml''"
  "sanitizeFilename (formatDate (sentDate datedMessage) @ js ''_'' @ subject datedMessage @ js ''.eml'')
     = js ''1970-01-01T00-00-00-000Z_Hello.eml''"
  by (simp_all add: sanitizeFilename_def invalidChars_def underscore_def dquote_def js_def
      jane_def john_def noteRecord_def datedMessage_def emptyMessage_def formatDate_def epoch_def)

lemma pathJoin_segment:
  assumes "seg \<noteq> []" and "seg \<noteq> js ''.''" and "seg \<noteq> js ''..''"
  shows "pathJoin p [seg] = p @ [seg]"
  using assms by (simp add: pathJoin_def joinSegment_def)

lemma sample_paths:
  "pathJoin p [js ''Contacts''] = p @ [js ''Contacts'']"
  "pathJoin p [js ''Inbox''] = p @ [js ''Inbox'']"
  "pathJoin p [js ''Emails''] = p @ [js ''Emails'']"
  "pathJoin p [js ''Jane Doe.vcf''] = p @ [js ''Jane Doe.vcf'']"
  "pathJoin p [js ''John Roe.vcf''] = p @ [js ''John Roe.vcf'']"
  "pathJoin p [js ''1970-01-01T00-00-00-000Z_Re_ a_b.eml'']
     = p @ [js ''1970-01-01T00-00-00-000Z_Re_ a_b.eml'']"
  "pathJoin p [js ''1970-01-01T00-00-00-000Z_Hello.eml'']
     = p @ [js ''1970-01-01T00-00-00-000Z_Hello.eml'']"
  by (rule pathJoin_segment; simp add: js_def)+

lemma sample_names_differ:
  "js ''1970-01-01T00-00-00-000Z_Hello.eml'' \<noteq> js ''1970-01-01T00-00-00-000Z_Re_ a_b.eml''"
  by (simp add: js_def)

lemma sample_attachments:
  "attachments noteRecord = []" "attachments datedMessage = []"
  by (simp_all add: noteRecord_def datedMessage_def emptyMessage_def)

text \<open>
  C3 does not hold of \<open>exportToFiles\<close> for contacts (and appointments, whose loop is
  written the same way). Exporting a folder with the contacts Jane Doe and John Roe when
  the write of \<open>Jane Doe.vcf\<close> fails ends with the exception: only the two directories
  were made and \<open>John Roe.vcf\<close> is never written. The loop over the messages does what
  the claim says: when the write of the first message's file fails, the second message
  is still written and the export ends normally.
\<close>

theorem export_contact_failure_aborts:
  "exportToFiles janeFails contactsFolder [js ''out''] fs0 =
     (Inl FsError,
      \<lparr>ops = [Mkdir [js ''out'', js ''Contacts''],
              Mkdir [js ''out'', js ''Contacts'', js ''Contacts'']],
       draws = 0\<rparr>)
   \<and> exportToFiles noteFails mailFolder [js ''out''] fs0 =
     (Inr (),
      \<lparr>ops = [Mkdir [js ''out'', js ''Inbox''],
              Mkdir [js ''out'', js ''Inbox'', js ''Emails''],
              WriteFile [js ''out'', js ''Inbox'', js ''Emails'',
                         js ''1970-01-01T00-00-00-000Z_Hello.eml'']
                (Text (createEMLContent (js ''k3'') epoch datedMessage))],
       draws = 2\<rparr>)"
proof -
  have c: "exportToFiles janeFails contactsFolder [js ''out''] fs0 =
     (Inl FsError,
      \<lparr>ops = [Mkdir [js ''out'', js ''Contacts''],
              Mkdir [js ''out'', js ''Contacts'', js ''Contacts'']],
       draws = 0\<rparr>)"
    by (simp add: contactsFolder_def sanitized_names sample_paths thenDo_def mkdir_def
        writeFile_def perform_def janeFails_def fs0_def)
  have m: "exportToFiles noteFails mailFolder [js ''out''] fs0 =
     (Inr (),
      \<lparr>ops = [Mkdir [js ''out'', js ''Inbox''],
              Mkdir [js ''out'', js ''Inbox'', js ''Emails''],
              WriteFile [js ''out'', js ''Inbox'', js ''Emails'',
                         js ''1970-01-01T00-00-00-000Z_Hello.eml'']
                (Text (createEMLContent (js ''k3'') epoch datedMessage))],
       draws = 2\<rparr>)"
    using sample_names_differ
    by (simp add: mailFolder_def sanitized_names sample_paths sample_attachments thenDo_def
        mkdir_def writeFile_def perform_def noteFails_def fs0_def exportMessage_def Let_def)
  from c m show ?thesis by blast
qed

subsection \<open>Serializers and exporter: what the output depends on\<close>













end
